theory Spec2Isabelle
  imports Complex_Main "HOL-Library.Word"
begin

section \<open>xControl: a shallow embedding of the OCR pipeline, the template locator,
  the polling primitives, the command runner and the instance registry\<close>

text \<open>
  The Python sources are \<^verbatim>\<open>ocr.py\<close>, \<^verbatim>\<open>screen.py\<close>, \<^verbatim>\<open>utils.py\<close>, \<^verbatim>\<open>display.py\<close>,
  \<^verbatim>\<open>geometry.py\<close> and \<^verbatim>\<open>__init__.py\<close>. A function that bears the name of a Python
  function of the sources is its translation; those named \<open>np_\<close> and \<open>cv2_\<close> are the
  library calls it makes. Exceptions are values of the type \<open>error\<close>; a
  function that can raise returns \<open>error + 'a\<close> with \<open>Inl\<close> for the exception. The
  \<^verbatim>\<open>isinstance\<close> assertions of the sources are carried by the types of the arguments.
  What the sources obtain from NumPy, OpenCV, Tesseract, the clock, the X server and
  child processes is either written out from the documented behaviour of the library
  call or taken as an argument of the model.
\<close>

subsection \<open>Exceptions\<close>

datatype message =
    ImageNotFound string real
  | ImageDidNotDisappear string real

datatype error =
    AssertionError string
  | OverflowError
  | ValueError
  | Cv2Error
  | FileNotFoundError string
  | TimeoutError message
  | UnicodeDecodeError

subsection \<open>NumPy arrays\<close>

text \<open>
  An \<^verbatim>\<open>ndarray\<close> is its shape and its buffer in row-major (C) order. The number of
  dimensions is the length of the shape. A two-dimensional array of shape \<open>[h, w]\<close>
  keeps element \<open>(i, j)\<close> at offset \<open>i * w + j\<close>; a three-dimensional array of shape
  \<open>[h, w, cn]\<close> keeps channel \<open>c\<close> of pixel \<open>(i, j)\<close> at offset \<open>(i * w + j) * cn + c\<close>.
\<close>

type_synonym uint8 = "8 word"

record 'a ndarray =
  shape :: "nat list"
  data :: "'a list"

definition ndim :: "'a ndarray \<Rightarrow> nat" where
  "ndim a = length (shape a)"

definition at2 :: "'a ndarray \<Rightarrow> nat \<Rightarrow> nat \<Rightarrow> 'a" where
  "at2 a i j = data a ! (i * (shape a ! 1) + j)"

definition at3 :: "'a ndarray \<Rightarrow> nat \<Rightarrow> nat \<Rightarrow> nat \<Rightarrow> 'a" where
  "at3 a i j c = data a ! ((i * (shape a ! 1) + j) * (shape a ! 2) + c)"

text \<open>The two-dimensional array of shape \<open>[h, w]\<close> whose element \<open>(i, j)\<close> is \<open>f i j\<close>.\<close>

definition tabulate2 :: "nat \<Rightarrow> nat \<Rightarrow> (nat \<Rightarrow> nat \<Rightarrow> 'a) \<Rightarrow> 'a ndarray" where
  "tabulate2 h w f =
     \<lparr>shape = [h, w], data = concat (map (\<lambda>i. map (f i) [0..<w]) [0..<h])\<rparr>"

text \<open>\<^verbatim>\<open>a == v\<close>, \<^verbatim>\<open>~m\<close> and the masked assignment \<^verbatim>\<open>a[m] = v\<close> (mask of the shape of \<open>a\<close>).\<close>

definition np_eq :: "'a ndarray \<Rightarrow> 'a \<Rightarrow> bool ndarray" where
  "np_eq a v = \<lparr>shape = shape a, data = map (\<lambda>x. x = v) (data a)\<rparr>"

definition np_invert :: "bool ndarray \<Rightarrow> bool ndarray" where
  "np_invert m = \<lparr>shape = shape m, data = map Not (data m)\<rparr>"

definition setitem_mask :: "'a ndarray \<Rightarrow> bool ndarray \<Rightarrow> 'a \<Rightarrow> 'a ndarray" where
  "setitem_mask a m v = a\<lparr>data := map2 (\<lambda>b x. if b then v else x) (data m) (data a)\<rparr>"

text \<open>
  \<^verbatim>\<open>np.array(xs, dtype=np.uint8)\<close> on a list of Python integers: a value outside
  \<open>0..255\<close> raises \<^verbatim>\<open>OverflowError\<close> (NumPy 2; older releases wrapped it around with
  a deprecation warning). No theorem below depends on the out-of-range case.
\<close>

definition np_array_uint8 :: "int list \<Rightarrow> error + uint8 list" where
  "np_array_uint8 xs =
     (if list_all (\<lambda>x. 0 \<le> x \<and> x \<le> 255) xs then Inr (map word_of_int xs)
      else Inl OverflowError)"

text \<open>
  Basic slices \<^verbatim>\<open>a[r0:r1, :]\<close> and \<^verbatim>\<open>a[:, c0:c1]\<close> with non-negative bounds: Python
  clips the bounds to the axis length, and an empty range gives an empty axis.
\<close>

definition slice_rows :: "'a ndarray \<Rightarrow> nat \<Rightarrow> nat \<Rightarrow> 'a ndarray" where
  "slice_rows a r0 r1 =
     (let h = shape a ! 0; w = shape a ! 1; hi = min r1 h; lo = min r0 hi
      in tabulate2 (hi - lo) w (\<lambda>i j. at2 a (lo + i) j))"

definition slice_cols :: "'a ndarray \<Rightarrow> nat \<Rightarrow> nat \<Rightarrow> 'a ndarray" where
  "slice_cols a c0 c1 =
     (let h = shape a ! 0; w = shape a ! 1; hi = min c1 w; lo = min c0 hi
      in tabulate2 h (hi - lo) (\<lambda>i j. at2 a i (lo + j)))"

text \<open>\<^verbatim>\<open>np.pad(a, p, mode="constant", constant_values=v)\<close> on a two-dimensional array.\<close>

definition np_pad :: "'a ndarray \<Rightarrow> nat \<Rightarrow> 'a \<Rightarrow> 'a ndarray" where
  "np_pad a p v =
     (let h = shape a ! 0; w = shape a ! 1
      in tabulate2 (h + 2 * p) (w + 2 * p)
           (\<lambda>i j. if p \<le> i \<and> i < p + h \<and> p \<le> j \<and> j < p + w
                  then at2 a (i - p) (j - p) else v))"

subsection \<open>\<^verbatim>\<open>ocr.py\<close>\<close>

datatype PSM = BLOCK_OF_TEXT | SINGLE_LINE | SINGLE_WORD | NUMBER

fun PSM_value :: "PSM \<Rightarrow> string" where
  "PSM_value BLOCK_OF_TEXT = ''--psm 6''"
| "PSM_value SINGLE_LINE = ''--psm 7''"
| "PSM_value SINGLE_WORD = ''--psm 8''"
| "PSM_value NUMBER = ''--psm 7 -c tessedit_char_whitelist=0123456789''"

record OCR_SPEC =
  type :: PSM
  lowerBound :: "int list"
  upperBound :: "int list"

text \<open>\<^verbatim>\<open>OCR_SPEC.__init__\<close>: both bounds are lists of three entries.\<close>

definition OCR_SPEC_init :: "PSM \<Rightarrow> int list \<Rightarrow> int list \<Rightarrow> error + OCR_SPEC" where
  "OCR_SPEC_init t lo hi =
     (if length lo \<noteq> 3 then Inl (AssertionError [])
      else if length hi \<noteq> 3 then Inl (AssertionError [])
      else Inr \<lparr>type = t, lowerBound = lo, upperBound = hi\<rparr>)"

text \<open>
  \<^verbatim>\<open>cv2.inRange(src, lowerb, upperb)\<close> on a three-channel image with three-entry
  bounds: 255 where every channel lies within its bounds (inclusive), 0 elsewhere.
  OpenCV rejects bounds that do not match the channels.
\<close>

definition cv2_inRange ::
  "uint8 ndarray \<Rightarrow> uint8 list \<Rightarrow> uint8 list \<Rightarrow> error + uint8 ndarray" where
  "cv2_inRange src lowerb upperb =
     (case shape src of
        [h, w, cn] \<Rightarrow>
          if cn = 3 \<and> length lowerb = 3 \<and> length upperb = 3
          then Inr (tabulate2 h w (\<lambda>i j.
                 if list_all (\<lambda>c. lowerb ! c \<le> at3 src i j c \<and> at3 src i j c \<le> upperb ! c)
                      [0, 1, 2]
                 then 255 else 0))
          else Inl Cv2Error
      | _ \<Rightarrow> Inl Cv2Error)"

text \<open>
  \<^verbatim>\<open>cv2.cvtColor(src, cv2.COLOR_BGR2GRAY)\<close>: the luminance of each pixel, in OpenCV's
  fixed-point weights for 8-bit images; an empty image or a channel count other than
  three is rejected. \<^verbatim>\<open>__convert_to_bw\<close> overwrites every grey value it produces.
\<close>

definition bgr2gray :: "uint8 \<Rightarrow> uint8 \<Rightarrow> uint8 \<Rightarrow> uint8" where
  "bgr2gray b g r =
     of_nat ((unat b * 1868 + unat g * 9617 + unat r * 4899 + 8192) div 16384)"

definition cv2_cvtColor_BGR2GRAY :: "uint8 ndarray \<Rightarrow> error + uint8 ndarray" where
  "cv2_cvtColor_BGR2GRAY src =
     (case shape src of
        [h, w, cn] \<Rightarrow>
          if cn = 3 \<and> 0 < h \<and> 0 < w
          then Inr (tabulate2 h w
                 (\<lambda>i j. bgr2gray (at3 src i j 0) (at3 src i j 1) (at3 src i j 2)))
          else Inl Cv2Error
      | _ \<Rightarrow> Inl Cv2Error)"

text \<open>
  \<^verbatim>\<open>OCR.__convert_to_bw\<close>. \<^verbatim>\<open>bgMask\<close> is true where \<^verbatim>\<open>inRange\<close> gave 0, that is where the
  pixel is outside the bounds of the spec (the bounds of the content colour).
\<close>

definition convert_to_bw :: "uint8 ndarray \<Rightarrow> OCR_SPEC \<Rightarrow> error + uint8 ndarray" where
  "convert_to_bw img spec =
     (if ndim img \<noteq> 3 then Inl (AssertionError ''Image must be BGR'')
      else case np_array_uint8 (lowerBound spec) of Inl e \<Rightarrow> Inl e | Inr lowerColor \<Rightarrow>
           case np_array_uint8 (upperBound spec) of Inl e \<Rightarrow> Inl e | Inr upperColor \<Rightarrow>
           case cv2_inRange img lowerColor upperColor of Inl e \<Rightarrow> Inl e | Inr ranged \<Rightarrow>
             let bgMask = np_eq ranged 0 in
             case cv2_cvtColor_BGR2GRAY img of Inl e \<Rightarrow> Inl e | Inr gray \<Rightarrow>
               Inr (setitem_mask (setitem_mask gray bgMask 255) (np_invert bgMask) 0))"

text \<open>
  The OpenCV calls of the remaining steps, as arguments of the model: the resampling
  kernel of \<^verbatim>\<open>cv2.resize\<close> for \<^verbatim>\<open>INTER_LINEAR\<close> (source and destination shape to
  destination buffer), \<^verbatim>\<open>cv2.erode\<close>, \<^verbatim>\<open>cv2.dilate\<close> (image, kernel shape, iterations) and
  \<^verbatim>\<open>cv2.GaussianBlur\<close> (image, kernel size, sigma), and Tesseract's
  \<^verbatim>\<open>image_to_string\<close> (image, configuration).
\<close>

record cv2_env =
  INTER_LINEAR :: "uint8 ndarray \<Rightarrow> nat list \<Rightarrow> uint8 list"
  erode :: "uint8 ndarray \<Rightarrow> nat list \<Rightarrow> nat \<Rightarrow> uint8 ndarray"
  dilate :: "uint8 ndarray \<Rightarrow> nat list \<Rightarrow> nat \<Rightarrow> uint8 ndarray"
  GaussianBlur :: "uint8 ndarray \<Rightarrow> nat list \<Rightarrow> nat \<Rightarrow> uint8 ndarray"
  image_to_string :: "uint8 ndarray \<Rightarrow> string \<Rightarrow> error + string"

text \<open>
  \<^verbatim>\<open>cvRound\<close>: the nearest integer, a tie going to the even neighbour. With
  \<^verbatim>\<open>dsize=None\<close>, \<^verbatim>\<open>cv2.resize\<close> computes the destination size as
  \<^verbatim>\<open>(cvRound(fx * cols), cvRound(fy * rows))\<close>.
\<close>

definition cvRound :: "rat \<Rightarrow> nat" where
  "cvRound x =
     (let f = \<lfloor>x\<rfloor>; d = x - of_int f
      in nat (if d < 1 / 2 then f else if 1 / 2 < d then f + 1
              else if even f then f else f + 1))"

definition cv2_resize :: "cv2_env \<Rightarrow> uint8 ndarray \<Rightarrow> rat \<Rightarrow> rat \<Rightarrow> uint8 ndarray" where
  "cv2_resize cv src fx fy =
     (let dsize = [cvRound (fy * of_nat (shape src ! 0)), cvRound (fx * of_nat (shape src ! 1))]
      in \<lparr>shape = dsize, data = INTER_LINEAR cv src dsize\<rparr>)"

text \<open>
  The first half of \<^verbatim>\<open>OCR.__improve_resolution\<close>: \<^verbatim>\<open>empty_rows\<close> and \<^verbatim>\<open>empty_cols\<close> are the
  indices of the rows and columns that are \<^emph>\<open>not\<close> entirely 255, both computed on the
  image as it came in; the image is cut from the first to the last of them.
\<close>

definition empty_rows :: "uint8 ndarray \<Rightarrow> nat list" where
  "empty_rows img =
     filter (\<lambda>i. \<not> list_all (\<lambda>j. at2 img i j = 255) [0..<shape img ! 1]) [0..<shape img ! 0]"

definition empty_cols :: "uint8 ndarray \<Rightarrow> nat list" where
  "empty_cols img =
     filter (\<lambda>j. \<not> list_all (\<lambda>i. at2 img i j = 255) [0..<shape img ! 0]) [0..<shape img ! 1]"

definition remove_empty :: "uint8 ndarray \<Rightarrow> uint8 ndarray" where
  "remove_empty img =
     (let rows = empty_rows img; cols = empty_cols img;
          img1 = (if rows \<noteq> [] then slice_rows img (hd rows) (last rows + 1) else img);
          img2 = (if cols \<noteq> [] then slice_cols img1 (hd cols) (last cols + 1) else img1)
      in img2)"

definition improve_resolution :: "cv2_env \<Rightarrow> uint8 ndarray \<Rightarrow> error + uint8 ndarray" where
  "improve_resolution cv img =
     (if ndim img \<noteq> 2 then Inl (AssertionError ''Image must be grayscale'')
      else let padding = 15;
               padded = np_pad (remove_empty img) padding 255
           in Inr (cv2_resize cv padded (5 / 2) (5 / 2)))"

definition enhance :: "cv2_env \<Rightarrow> uint8 ndarray \<Rightarrow> uint8 ndarray" where
  "enhance cv img =
     GaussianBlur cv (dilate cv (erode cv img [3, 3] 1) [3, 3] 1) [3, 3] 0"

text \<open>
  \<^verbatim>\<open>OCR.__format\<close>: every run of tabs becomes one space, then white space is stripped
  from both ends (the ASCII white space of \<^verbatim>\<open>str.strip\<close>).
\<close>

function collapse_tabs :: "string \<Rightarrow> string" where
  "collapse_tabs [] = []"
| "collapse_tabs (c # cs) =
     (if c = CHR 0x09 then CHR '' '' # collapse_tabs (dropWhile (\<lambda>d. d = CHR 0x09) cs)
      else c # collapse_tabs cs)"
  by pat_completeness auto
termination
  by (relation "measure length") (auto simp: less_Suc_eq_le length_dropWhile_le)

definition isspace :: "char \<Rightarrow> bool" where
  "isspace c = (c = CHR '' '' \<or> (9 \<le> (of_char c :: nat) \<and> (of_char c :: nat) \<le> 13)
                \<or> (28 \<le> (of_char c :: nat) \<and> (of_char c :: nat) \<le> 31))"

definition strip :: "string \<Rightarrow> string" where
  "strip s = rev (dropWhile isspace (rev (dropWhile isspace s)))"

definition format :: "string \<Rightarrow> string" where
  "format text = strip (collapse_tabs text)"

text \<open>
  \<^verbatim>\<open>OCR.extract_text\<close>. The result comes with the list of the steps that ran, in
  order. The precondition is \<^verbatim>\<open>assert img.ndim == 3, "Image must be BGR"\<close>.
\<close>

datatype step =
    PrepareImage
  | ConvertToBW
  | ImproveResolution
  | Enhance
  | ImageToString string
  | ShowImage
  | Print

definition extract_text ::
  "cv2_env \<Rightarrow> uint8 ndarray \<Rightarrow> OCR_SPEC \<Rightarrow> bool \<Rightarrow>
   (uint8 ndarray \<Rightarrow> error + uint8 ndarray) option \<Rightarrow> (error + string) \<times> step list" where
  "extract_text cv img spec preview prepare_image =
     (if ndim img \<noteq> 3 then (Inl (AssertionError ''Image must be BGR''), [])
      else
        let (prepared, steps) =
          (case prepare_image of
             Some f \<Rightarrow> (f img, [PrepareImage])
           | None \<Rightarrow>
               (case convert_to_bw img spec of
                  Inl e \<Rightarrow> (Inl e, [ConvertToBW])
                | Inr bw \<Rightarrow>
                    (case improve_resolution cv bw of
                       Inl e \<Rightarrow> (Inl e, [ConvertToBW, ImproveResolution])
                     | Inr big \<Rightarrow>
                         (Inr (enhance cv big), [ConvertToBW, ImproveResolution, Enhance]))))
        in case prepared of
             Inl e \<Rightarrow> (Inl e, steps)
           | Inr img' \<Rightarrow>
               let config = ''-l eng '' @ PSM_value (type spec) in
               (case image_to_string cv img' config of
                  Inl e \<Rightarrow> (Inl e, steps @ [ImageToString config])
                | Inr txt \<Rightarrow>
                    (Inr (format txt),
                     steps @ [ImageToString config] @
                       (if preview then [ShowImage, Print] else []))))"

text \<open>
  Vocabulary for the statements about \<^verbatim>\<open>__convert_to_bw\<close>: the bounds of a spec are byte
  triples, and a pixel is within the bounds when each of its channels, read as an
  integer, lies between the lower and the upper bound of that channel (inclusive).
\<close>

definition byte_triple :: "int list \<Rightarrow> bool" where
  "byte_triple xs = (length xs = 3 \<and> list_all (\<lambda>x. 0 \<le> x \<and> x \<le> 255) xs)"

definition in_bounds :: "OCR_SPEC \<Rightarrow> uint8 ndarray \<Rightarrow> nat \<Rightarrow> nat \<Rightarrow> bool" where
  "in_bounds spec img i j =
     list_all (\<lambda>c. lowerBound spec ! c \<le> uint (at3 img i j c) \<and>
                  uint (at3 img i j c) \<le> upperBound spec ! c) [0, 1, 2]"

text \<open>
  Vocabulary for the statements about \<^verbatim>\<open>__improve_resolution\<close>. \<open>bounding_box\<close> says that
  rows \<open>r0..r1\<close> and columns \<open>c0..c1\<close> are the smallest rectangle holding every pixel
  other than 255: all such pixels are inside, and each of its four border lines holds
  one. \<open>cut_of\<close> says that an array is that rectangle of the image, and \<open>padded_by\<close>
  that an array is another one with \<open>p\<close> lines of value \<open>v\<close> on each of its four sides.
\<close>

definition all_white :: "uint8 ndarray \<Rightarrow> bool" where
  "all_white img =
     list_all (\<lambda>i. list_all (\<lambda>j. at2 img i j = 255) [0..<shape img ! 1]) [0..<shape img ! 0]"

definition row_has_content :: "uint8 ndarray \<Rightarrow> nat \<Rightarrow> bool" where
  "row_has_content img i = list_ex (\<lambda>j. at2 img i j \<noteq> 255) [0..<shape img ! 1]"

definition col_has_content :: "uint8 ndarray \<Rightarrow> nat \<Rightarrow> bool" where
  "col_has_content img j = list_ex (\<lambda>i. at2 img i j \<noteq> 255) [0..<shape img ! 0]"

definition bounding_box :: "uint8 ndarray \<Rightarrow> nat \<Rightarrow> nat \<Rightarrow> nat \<Rightarrow> nat \<Rightarrow> bool" where
  "bounding_box img r0 r1 c0 c1 =
     (r0 \<le> r1 \<and> r1 < shape img ! 0 \<and> c0 \<le> c1 \<and> c1 < shape img ! 1 \<and>
      list_all (\<lambda>i. list_all (\<lambda>j. at2 img i j = 255 \<or> (r0 \<le> i \<and> i \<le> r1 \<and> c0 \<le> j \<and> j \<le> c1))
                  [0..<shape img ! 1]) [0..<shape img ! 0] \<and>
      row_has_content img r0 \<and> row_has_content img r1 \<and>
      col_has_content img c0 \<and> col_has_content img c1)"

definition cut_of :: "uint8 ndarray \<Rightarrow> uint8 ndarray \<Rightarrow> nat \<Rightarrow> nat \<Rightarrow> nat \<Rightarrow> nat \<Rightarrow> bool" where
  "cut_of out img r0 r1 c0 c1 =
     (shape out = [r1 + 1 - r0, c1 + 1 - c0] \<and>
      length (data out) = (r1 + 1 - r0) * (c1 + 1 - c0) \<and>
      list_all (\<lambda>i. list_all (\<lambda>j. at2 out i j = at2 img (r0 + i) (c0 + j)) [0..<c1 + 1 - c0])
        [0..<r1 + 1 - r0])"

definition no_white_border :: "uint8 ndarray \<Rightarrow> bool" where
  "no_white_border img =
     (0 < shape img ! 0 \<and> 0 < shape img ! 1 \<and>
      row_has_content img 0 \<and> row_has_content img (shape img ! 0 - 1) \<and>
      col_has_content img 0 \<and> col_has_content img (shape img ! 1 - 1))"

definition padded_by :: "nat \<Rightarrow> uint8 \<Rightarrow> uint8 ndarray \<Rightarrow> uint8 ndarray \<Rightarrow> bool" where
  "padded_by p v inner out =
     (let h = shape inner ! 0; w = shape inner ! 1 in
      shape out = [h + 2 * p, w + 2 * p] \<and>
      length (data out) = (h + 2 * p) * (w + 2 * p) \<and>
      list_all (\<lambda>i. list_all (\<lambda>j.
          at2 out i j = (if p \<le> i \<and> i < p + h \<and> p \<le> j \<and> j < p + w
                         then at2 inner (i - p) (j - p) else v))
        [0..<w + 2 * p]) [0..<h + 2 * p])"

text \<open>
  \<open>scaled_5_2 n m\<close>: \<open>m\<close> is \<open>2.5 * n\<close> when that is an integer (\<open>n\<close> even), and one
  of its two integer neighbours otherwise.
\<close>

definition scaled_5_2 :: "nat \<Rightarrow> nat \<Rightarrow> bool" where
  "scaled_5_2 n m = (if even n then 2 * m = 5 * n else 2 * m = 5 * n + 1 \<or> 2 * m + 1 = 5 * n)"

subsection \<open>\<^verbatim>\<open>utils.py\<close>\<close>

text \<open>
  The polling loops call three things outside themselves: the condition, the clock
  (\<^verbatim>\<open>time.time()\<close>) and \<^verbatim>\<open>time.sleep\<close>. A run is described by two scripts: \<open>condition n\<close>
  is the outcome of the call of the condition that follows \<open>n\<close> earlier calls (a value,
  or the exception it raises), and \<open>clock n\<close> is the reading of the clock that follows
  \<open>n\<close> earlier readings. Each function returns its result together with the list of
  the calls it made, in order. \<^verbatim>\<open>time.sleep\<close> raises \<^verbatim>\<open>ValueError\<close> on a negative
  argument. A loop that never ends has the value \<open>None\<close>. Clock readings, timeouts
  and intervals are real numbers: the rounding of the floating-point subtraction
  \<^verbatim>\<open>time.time() - start\<close> is not modelled.
\<close>

datatype event = Call | Time | Sleep real

partial_function (option) wait_for_loop ::
  "(nat \<Rightarrow> error + bool) \<Rightarrow> (nat \<Rightarrow> real) \<Rightarrow> real \<Rightarrow> real \<Rightarrow> real \<Rightarrow> nat \<Rightarrow> event list
   \<Rightarrow> ((error + bool) \<times> event list) option" where
  "wait_for_loop condition clock timeout interval start n tr =
     (case condition n of
        Inl e \<Rightarrow> Some (Inl e, tr @ [Call])
      | Inr c \<Rightarrow>
          if c then Some (Inr True, tr @ [Call])
          else if clock (Suc n) - start > timeout then Some (Inr False, tr @ [Call, Time])
          else if interval < 0 then Some (Inl ValueError, tr @ [Call, Time])
          else wait_for_loop condition clock timeout interval start (Suc n)
                 (tr @ [Call, Time, Sleep interval]))"

definition wait_for ::
  "(nat \<Rightarrow> error + bool) \<Rightarrow> (nat \<Rightarrow> real) \<Rightarrow> real \<Rightarrow> real
   \<Rightarrow> ((error + bool) \<times> event list) option" where
  "wait_for condition clock timeout interval =
     (let start = clock 0
      in wait_for_loop condition clock timeout interval start 0 [Time])"

partial_function (option) wait_to_be_set_loop ::
  "(nat \<Rightarrow> error + 'v option) \<Rightarrow> (nat \<Rightarrow> real) \<Rightarrow> real \<Rightarrow> real \<Rightarrow> real \<Rightarrow> nat
   \<Rightarrow> 'v option \<Rightarrow> event list \<Rightarrow> ((error + 'v option) \<times> event list) option" where
  "wait_to_be_set_loop condition clock timeout interval start n result tr =
     (if result = None then
        if clock n - start > timeout then Some (Inr result, tr @ [Time])
        else if interval < 0 then Some (Inl ValueError, tr @ [Time])
        else (case condition n of
                Inl e \<Rightarrow> Some (Inl e, tr @ [Time, Sleep interval, Call])
              | Inr result' \<Rightarrow>
                  wait_to_be_set_loop condition clock timeout interval start (Suc n) result'
                    (tr @ [Time, Sleep interval, Call]))
      else Some (Inr result, tr))"

definition wait_to_be_set ::
  "(nat \<Rightarrow> error + 'v option) \<Rightarrow> (nat \<Rightarrow> real) \<Rightarrow> real \<Rightarrow> real
   \<Rightarrow> ((error + 'v option) \<times> event list) option" where
  "wait_to_be_set condition clock timeout interval =
     (case condition 0 of
        Inl e \<Rightarrow> Some (Inl e, [Call])
      | Inr result \<Rightarrow>
          let start = clock 0
          in wait_to_be_set_loop condition clock timeout interval start 1 result [Call, Time])"

text \<open>The default \<^verbatim>\<open>interval=0.1\<close> of both functions.\<close>

definition default_interval :: real where
  "default_interval = 1 / 10"

text \<open>The events of one round of each loop, for the statements about the traces.\<close>

definition wait_for_round :: "real \<Rightarrow> event list" where
  "wait_for_round interval = [Call, Time, Sleep interval]"

definition wait_to_be_set_round :: "real \<Rightarrow> event list" where
  "wait_to_be_set_round interval = [Time, Sleep interval, Call]"

subsection \<open>\<^verbatim>\<open>geometry.py\<close>\<close>

record Point =
  X :: int
  Y :: int

text \<open>\<^verbatim>\<open>Point.__init__\<close> asserts that both coordinates are non-negative.\<close>

definition Point_init :: "int \<Rightarrow> int \<Rightarrow> error + Point" where
  "Point_init x y = (if 0 \<le> x \<and> 0 \<le> y then Inr \<lparr>X = x, Y = y\<rparr> else Inl (AssertionError []))"

record Frame =
  corner :: Point
  width :: int
  height :: int

subsection \<open>\<^verbatim>\<open>screen.py\<close>\<close>

text \<open>
  What \<^verbatim>\<open>__locate_on_screen\<close> calls outside itself, as arguments of the model: the
  capture of a frame (\<^verbatim>\<open>Display.screenshot\<close>), \<^verbatim>\<open>cv2.imread\<close> (\<open>None\<close> for a path that
  is not a readable image) and \<^verbatim>\<open>cv2.matchTemplate\<close> with \<^verbatim>\<open>TM_CCOEFF_NORMED\<close> (the
  correlation map, or the error OpenCV raises). The result comes with the list of these
  calls, in order.
\<close>

record screen_env =
  screenshot :: "Frame option \<Rightarrow> uint8 ndarray"
  imread :: "string \<Rightarrow> uint8 ndarray option"
  matchTemplate :: "uint8 ndarray \<Rightarrow> uint8 ndarray \<Rightarrow> error + real ndarray"

datatype io = Screenshot "Frame option" | Imread string | MatchTemplate

text \<open>
  \<^verbatim>\<open>cv2.minMaxLoc\<close> on a two-dimensional map: the least and the greatest value and the
  place \<open>(x, y)\<close> (column, row) of the first occurrence of each in row-major order.
\<close>

definition first_index :: "'a list \<Rightarrow> 'a \<Rightarrow> nat" where
  "first_index xs v = length (takeWhile (\<lambda>x. x \<noteq> v) xs)"

definition cv2_minMaxLoc ::
  "real ndarray \<Rightarrow> error + real \<times> real \<times> (nat \<times> nat) \<times> (nat \<times> nat)" where
  "cv2_minMaxLoc src =
     (case data src of
        [] \<Rightarrow> Inl Cv2Error
      | v # vs \<Rightarrow>
          let w = shape src ! 1;
              min_val = fold min vs v; max_val = fold max vs v;
              kmin = first_index (v # vs) min_val; kmax = first_index (v # vs) max_val
          in Inr (min_val, max_val, (kmin mod w, kmin div w), (kmax mod w, kmax div w)))"

definition locate_on_screen ::
  "screen_env \<Rightarrow> string \<Rightarrow> Frame option \<Rightarrow> real \<Rightarrow> (error + Point option) \<times> io list" where
  "locate_on_screen env imagePath frame confidence =
     (if \<not> (0 \<le> confidence \<and> confidence \<le> 1) then (Inl (AssertionError []), [])
      else
        let shot = screenshot env frame in
        case imread env imagePath of
          None \<Rightarrow> (Inl (FileNotFoundError imagePath), [Screenshot frame, Imread imagePath])
        | Some template \<Rightarrow>
            let calls = [Screenshot frame, Imread imagePath, MatchTemplate] in
            (case matchTemplate env shot template of
               Inl e \<Rightarrow> (Inl e, calls)
             | Inr result \<Rightarrow>
                 (case cv2_minMaxLoc result of
                    Inl e \<Rightarrow> (Inl e, calls)
                  | Inr (min_val, max_val, min_loc, max_loc) \<Rightarrow>
                      if max_val > confidence then
                        (case butlast (shape template) of
                           [h, w] \<Rightarrow>
                             (case Point_init (int (fst max_loc) + int w div 2)
                                     (int (snd max_loc) + int h div 2) of
                                Inl e \<Rightarrow> (Inl e, calls)
                              | Inr point \<Rightarrow> (Inr (Some point), calls))
                         | _ \<Rightarrow> (Inl ValueError, calls))
                      else (Inr None, calls))))"

text \<open>
  \<^verbatim>\<open>Screen.wait_for_image\<close> and \<^verbatim>\<open>Screen.wait_for_image_to_disappear\<close>. The screen may
  change between two looks: \<open>envs n\<close> is what the look after \<open>n\<close> earlier ones finds.
  Both pass the literal \<^verbatim>\<open>1\<close> as the timeout of the polling loop. A \<^verbatim>\<open>Point\<close> is always
  truthy.
\<close>

definition wait_for_image ::
  "(nat \<Rightarrow> screen_env) \<Rightarrow> (nat \<Rightarrow> real) \<Rightarrow> string \<Rightarrow> Frame option \<Rightarrow> real \<Rightarrow> real
   \<Rightarrow> ((error + Point) \<times> event list) option" where
  "wait_for_image envs clock imagePath frame confidence timeout =
     (case wait_to_be_set (\<lambda>n. fst (locate_on_screen (envs n) imagePath frame confidence))
             clock 1 default_interval of
        None \<Rightarrow> None
      | Some (Inl e, tr) \<Rightarrow> Some (Inl e, tr)
      | Some (Inr (Some point), tr) \<Rightarrow> Some (Inr point, tr)
      | Some (Inr None, tr) \<Rightarrow> Some (Inl (TimeoutError (ImageNotFound imagePath timeout)), tr))"

definition wait_for_image_to_disappear ::
  "(nat \<Rightarrow> screen_env) \<Rightarrow> (nat \<Rightarrow> real) \<Rightarrow> string \<Rightarrow> Frame option \<Rightarrow> real \<Rightarrow> real
   \<Rightarrow> ((error + unit) \<times> event list) option" where
  "wait_for_image_to_disappear envs clock imagePath frame confidence timeout =
     (case wait_for (\<lambda>n. case fst (locate_on_screen (envs n) imagePath frame confidence) of
                            Inl e \<Rightarrow> Inl e | Inr point \<Rightarrow> Inr (point = None))
             clock 1 default_interval of
        None \<Rightarrow> None
      | Some (Inl e, tr) \<Rightarrow> Some (Inl e, tr)
      | Some (Inr gone, tr) \<Rightarrow>
          if \<not> gone
          then Some (Inl (TimeoutError (ImageDidNotDisappear imagePath timeout)), tr)
          else Some (Inr (), tr))"

text \<open>An exception with the number of seconds in the text of a \<^verbatim>\<open>TimeoutError\<close> blanked.\<close>

fun erase_timeout :: "error \<Rightarrow> error" where
  "erase_timeout (TimeoutError (ImageNotFound p t)) = TimeoutError (ImageNotFound p 0)"
| "erase_timeout (TimeoutError (ImageDidNotDisappear p t)) =
     TimeoutError (ImageDidNotDisappear p 0)"
| "erase_timeout e = e"

subsection \<open>\<^verbatim>\<open>display.py\<close>\<close>

text \<open>
  \<^verbatim>\<open>Display.run_command\<close>. A byte string is a \<open>string\<close>; a decoded text is kept as its
  UTF-8 bytes. \<^verbatim>\<open>bytes.decode("utf-8")\<close> raises \<^verbatim>\<open>UnicodeDecodeError\<close> on bytes that are
  not well-formed UTF-8 (no overlong forms, no surrogates, nothing above U+10FFFF).
\<close>

definition continuation :: "nat \<Rightarrow> bool" where
  "continuation b = (128 \<le> b \<and> b \<le> 191)"

fun valid_utf8 :: "nat list \<Rightarrow> bool" where
  "valid_utf8 [] = True"
| "valid_utf8 (b0 # bs) =
     (if b0 < 128 then valid_utf8 bs
      else if 194 \<le> b0 \<and> b0 \<le> 223 then
        (case bs of b1 # r \<Rightarrow> continuation b1 \<and> valid_utf8 r | _ \<Rightarrow> False)
      else if 224 \<le> b0 \<and> b0 \<le> 239 then
        (case bs of
           b1 # b2 # r \<Rightarrow>
             (if b0 = 224 then 160 \<le> b1 \<and> b1 \<le> 191
              else if b0 = 237 then 128 \<le> b1 \<and> b1 \<le> 159
              else continuation b1) \<and> continuation b2 \<and> valid_utf8 r
         | _ \<Rightarrow> False)
      else if 240 \<le> b0 \<and> b0 \<le> 244 then
        (case bs of
           b1 # b2 # b3 # r \<Rightarrow>
             (if b0 = 240 then 144 \<le> b1 \<and> b1 \<le> 191
              else if b0 = 244 then 128 \<le> b1 \<and> b1 \<le> 143
              else continuation b1) \<and> continuation b2 \<and> continuation b3 \<and> valid_utf8 r
         | _ \<Rightarrow> False)
      else False)"

definition decode_utf8 :: "string \<Rightarrow> error + string" where
  "decode_utf8 bytes =
     (if valid_utf8 (map of_char bytes) then Inr bytes else Inl UnicodeDecodeError)"

text \<open>
  The child process as \<^verbatim>\<open>run_command\<close> sees it: the status \<^verbatim>\<open>proc.wait(timeout=5)\<close>
  returns (\<open>None\<close> when it raises instead), and what is left to read on the two pipes.
  \<^verbatim>\<open>read()\<close> returns all of it and leaves the pipe empty. Starting the process
  (\<^verbatim>\<open>shlex.split\<close> and \<^verbatim>\<open>Popen\<close>) is an argument of the model.
\<close>

record process =
  returncode :: "int option"
  stdout :: string
  stderr :: string

definition read_stdout :: "process \<Rightarrow> string \<times> process" where
  "read_stdout proc = (stdout proc, proc\<lparr>stdout := []\<rparr>)"

definition read_stderr :: "process \<Rightarrow> string \<times> process" where
  "read_stderr proc = (stderr proc, proc\<lparr>stderr := []\<rparr>)"

datatype level = DEBUG | ERROR

datatype log_message =
    RunCommand string
  | FailedToWait string
  | ExitedWith string int string

type_synonym log = "(level \<times> log_message) list"

text \<open>The body of \<^verbatim>\<open>if rc != 0:\<close>.\<close>

definition log_failure ::
  "string \<Rightarrow> int \<Rightarrow> process \<Rightarrow> log \<Rightarrow> error \<times> log + process \<times> log" where
  "log_failure cmd rc proc lg =
     (let (bytes, proc1) = read_stderr proc in
      case decode_utf8 bytes of
        Inl e \<Rightarrow> Inl (e, lg)
      | Inr err \<Rightarrow>
          if length err = 0 then
            (let (bytes', proc2) = read_stdout proc1 in
             case decode_utf8 bytes' of
               Inl e \<Rightarrow> Inl (e, lg)
             | Inr err' \<Rightarrow> Inr (proc2, lg @ [(DEBUG, ExitedWith cmd rc err')]))
          else Inr (proc1, lg @ [(DEBUG, ExitedWith cmd rc err)]))"

definition run_command ::
  "(string \<Rightarrow> error + process) \<Rightarrow> log \<Rightarrow> string \<Rightarrow> bool \<Rightarrow> (error + string) \<times> log" where
  "run_command popen lg cmd waitFor =
     (let lg1 = lg @ [(DEBUG, RunCommand cmd)] in
      case popen cmd of
        Inl e \<Rightarrow> (Inl e, lg1)
      | Inr proc \<Rightarrow>
          if waitFor then
            (case returncode proc of
               None \<Rightarrow> (Inr [], lg1 @ [(DEBUG, FailedToWait cmd)])
             | Some rc \<Rightarrow>
                 (case (if rc \<noteq> 0 then log_failure cmd rc proc lg1 else Inr (proc, lg1)) of
                    Inl (e, lg2) \<Rightarrow> (Inl e, lg2)
                  | Inr (proc', lg2) \<Rightarrow>
                      (case decode_utf8 (fst (read_stdout proc')) of
                         Inl e \<Rightarrow> (Inl e, lg2)
                       | Inr out \<Rightarrow> (Inr out, lg2))))
          else (Inr [], lg1))"

subsection \<open>\<^verbatim>\<open>__init__.py\<close>: the registry of automation handles\<close>

text \<open>
  \<^verbatim>\<open>Display.__init__\<close> asserts that the identifier starts with a colon and that width
  and height are positive integers (\<open>None\<close>, the default of \<^verbatim>\<open>get_instance\<close>, is not an
  integer). An \<^verbatim>\<open>XControl\<close> is the display it was made for; its screen and OCR objects
  hold nothing else.
\<close>

record Display =
  displayId :: string
  width :: int
  height :: int
  title :: string

definition Display_init :: "string \<Rightarrow> int option \<Rightarrow> int option \<Rightarrow> error + Display" where
  "Display_init d w h =
     (if take 1 d \<noteq> '':'' then Inl (AssertionError [])
      else case w of
        None \<Rightarrow> Inl (AssertionError [])
      | Some w' \<Rightarrow>
          if \<not> 0 < w' then Inl (AssertionError [])
          else case h of
            None \<Rightarrow> Inl (AssertionError [])
          | Some h' \<Rightarrow>
              if \<not> 0 < h' then Inl (AssertionError [])
              else Inr \<lparr>displayId = d, width = w', height = h',
                        title = ''Xephyr-Window-'' @ d\<rparr>)"

record XControl =
  display :: Display

definition XControl_init :: "string \<Rightarrow> int option \<Rightarrow> int option \<Rightarrow> error + XControl" where
  "XControl_init d w h =
     (case Display_init d w h of Inl e \<Rightarrow> Inl e | Inr disp \<Rightarrow> Inr \<lparr>display = disp\<rparr>)"

text \<open>
  The class attributes \<^verbatim>\<open>__instances\<close> (a dictionary, in insertion order) and
  \<^verbatim>\<open>uniqueDisplay\<close>. A key is only ever added when it is not in the dictionary.
\<close>

record registry =
  instances :: "(string \<times> XControl) list"
  uniqueDisplay :: bool

definition initial :: registry where
  "initial = \<lparr>instances = [], uniqueDisplay = False\<rparr>"

definition config :: "registry \<Rightarrow> bool \<Rightarrow> (error + unit) \<times> registry" where
  "config r unique =
     (if unique \<and> \<not> length (instances r) \<le> 1
      then (Inl (AssertionError ''There are already multiple displays created.''), r)
      else (Inr (), r\<lparr>uniqueDisplay := unique\<rparr>))"

definition get_instance ::
  "registry \<Rightarrow> string option \<Rightarrow> int option \<Rightarrow> int option \<Rightarrow> (error + XControl) \<times> registry" where
  "get_instance r did w h =
     (case did of
        None \<Rightarrow>
          if \<not> (uniqueDisplay r \<and> length (instances r) = 1)
          then (Inl (AssertionError ''Display ID is required when multiple displays are allowed.''), r)
          else (Inr (snd (hd (instances r))), r)
      | Some d \<Rightarrow>
          (case map_of (instances r) d of
             Some x \<Rightarrow> (Inr x, r)
           | None \<Rightarrow>
               if \<not> (length (instances r) = 0 \<or> \<not> uniqueDisplay r)
               then (Inl (AssertionError ''There is already a display created.''), r)
               else (case XControl_init d w h of
                       Inl e \<Rightarrow> (Inl e, r)
                     | Inr x \<Rightarrow> (Inr x, r\<lparr>instances := instances r @ [(d, x)]\<rparr>))))"

text \<open>A sequence of calls of the two class methods, and the registry it leaves.\<close>

datatype call = Config bool | GetInstance "string option" "int option" "int option"

fun after_call :: "registry \<Rightarrow> call \<Rightarrow> registry" where
  "after_call r (Config unique) = snd (config r unique)"
| "after_call r (GetInstance did w h) = snd (get_instance r did w h)"

definition run :: "call list \<Rightarrow> registry" where
  "run calls = foldl after_call initial calls"

text \<open>The invariant of the registry.\<close>

definition registry_ok :: "registry \<Rightarrow> bool" where
  "registry_ok r = (uniqueDisplay r \<longrightarrow> length (instances r) \<le> 1)"

subsection \<open>Concrete inputs\<close>

text \<open>A single pixel, and a spec whose bounds cover every colour.\<close>

definition img_1x1 :: "uint8 ndarray" where
  "img_1x1 = \<lparr>shape = [1, 1, 3], data = [10, 20, 30]\<rparr>"

definition spec_any :: OCR_SPEC where
  "spec_any = \<lparr>type = SINGLE_LINE, lowerBound = [0, 0, 0], upperBound = [255, 255, 255]\<rparr>"

text \<open>Two pixels in a row, and a spec whose bounds cover the first of them only.\<close>

definition img_1x2 :: "uint8 ndarray" where
  "img_1x2 = \<lparr>shape = [1, 2, 3], data = [10, 20, 30, 200, 20, 30]\<rparr>"

definition spec_dark :: OCR_SPEC where
  "spec_dark = \<lparr>type = SINGLE_LINE, lowerBound = [0, 0, 0], upperBound = [100, 100, 100]\<rparr>"

text \<open>
  A stand-in for the library calls that are arguments of the model, for the closed
  statements that need one: resampling gives a white image of the requested size, the
  filters return their input, the OCR engine reads the fixed text \<open>''text''\<close>.
\<close>

definition cv_blank :: cv2_env where
  "cv_blank =
     \<lparr>INTER_LINEAR = (\<lambda>src dsize. replicate (prod_list dsize) 255),
      erode = (\<lambda>img k n. img), dilate = (\<lambda>img k n. img),
      GaussianBlur = (\<lambda>img k s. img),
      image_to_string = (\<lambda>img config. Inr ''text'')\<rparr>"

text \<open>One black pixel inside a white border; a two-by-two block inside a white border.\<close>

definition img_3x3 :: "uint8 ndarray" where
  "img_3x3 = \<lparr>shape = [3, 3], data = [255, 255, 255, 255, 0, 255, 255, 255, 255]\<rparr>"

definition img_4x4 :: "uint8 ndarray" where
  "img_4x4 = \<lparr>shape = [4, 4],
     data = [255, 255, 255, 255, 255, 0, 7, 255, 255, 9, 0, 255, 255, 255, 255, 255]\<rparr>"

text \<open>
  Scripts for the polling loops: a producer that yields nothing on its first call and
  7 from then on; a producer that never yields; a predicate that is true from its third call on; one that is never true; a clock whose first
  two readings are equal; a clock that advances by half a second per reading.
\<close>

definition late_producer :: "nat \<Rightarrow> error + nat option" where
  "late_producer n = (if n = 0 then Inr None else Inr (Some 7))"

definition silent_producer :: "nat \<Rightarrow> error + nat option" where
  "silent_producer n = Inr None"

definition third_time :: "nat \<Rightarrow> error + bool" where
  "third_time n = Inr (2 \<le> n)"

definition never :: "nat \<Rightarrow> error + bool" where
  "never n = Inr False"

definition stalled_clock :: "nat \<Rightarrow> real" where
  "stalled_clock n = (if n \<le> 1 then 100 else 100 + real n)"

definition half_second_clock :: "nat \<Rightarrow> real" where
  "half_second_clock n = 100 + real n / 2"

text \<open>
  Screens for the locator: one where no image file can be read; one whose correlation
  map for any template is a fixed two-by-three map with its greatest value, 0.9, in
  row 1 and column 2, and whose template is four pixels high and six wide.
\<close>

definition env_missing :: screen_env where
  "env_missing =
     \<lparr>screenshot = (\<lambda>frame. img_1x1), imread = (\<lambda>path. None),
      matchTemplate = (\<lambda>image templ. Inl Cv2Error)\<rparr>"

definition template_4x6 :: "uint8 ndarray" where
  "template_4x6 = \<lparr>shape = [4, 6, 3], data = replicate 72 0\<rparr>"

definition corr_2x3 :: "real ndarray" where
  "corr_2x3 = \<lparr>shape = [2, 3], data = [1 / 10, 3 / 10, 2 / 10, 0, 5 / 10, 9 / 10]\<rparr>"

definition env_found :: screen_env where
  "env_found =
     \<lparr>screenshot = (\<lambda>frame. img_1x1), imread = (\<lambda>path. Some template_4x6),
      matchTemplate = (\<lambda>image templ. Inr corr_2x3)\<rparr>"

definition steady_screen :: "nat \<Rightarrow> screen_env" where
  "steady_screen n = env_found"

text \<open>A pixel with four channels.\<close>

definition img_bgra :: "uint8 ndarray" where
  "img_bgra = \<lparr>shape = [1, 1, 4], data = [10, 20, 30, 255]\<rparr>"

text \<open>
  A process that has written to both pipes and exited with status 1, one that has
  written to its standard output only, one that has written a byte that is not UTF-8
  to its standard error, and the launcher that returns each.
\<close>

definition proc_both :: process where
  "proc_both = \<lparr>returncode = Some 1, stdout = ''partial'', stderr = ''boom''\<rparr>"

definition proc_quiet :: process where
  "proc_quiet = \<lparr>returncode = Some 1, stdout = ''partial'', stderr = []\<rparr>"

definition proc_garbled :: process where
  "proc_garbled = \<lparr>returncode = Some 1, stdout = [], stderr = [CHR 0xFF]\<rparr>"

definition popen_garbled :: "string \<Rightarrow> error + process" where
  "popen_garbled cmd = Inr proc_garbled"

definition popen_both :: "string \<Rightarrow> error + process" where
  "popen_both cmd = Inr proc_both"

definition popen_quiet :: "string \<Rightarrow> error + process" where
  "popen_quiet cmd = Inr proc_quiet"

text \<open>Calls of the registry: unique mode, then two displays, then a request without identifier.\<close>

definition unique_calls :: "call list" where
  "unique_calls =
     [Config True, GetInstance (Some '':1'') (Some 800) (Some 600),
      GetInstance (Some '':2'') (Some 800) (Some 600)]"

section \<open>Properties\<close>

subsection \<open>Arrays\<close>

lemma length_tab_rows:
  "length (concat (map (\<lambda>i. map (f i) [0..<w]) [0..<h])) = h * w"
  by (induction h) simp_all

lemma index2_less: "i < h \<Longrightarrow> j < w \<Longrightarrow> i * w + j < h * (w::nat)"
proof -
  assume a: "i < h" "j < w"
  have "i * w + j < Suc i * w" using a(2) by simp
  also have "\<dots> \<le> h * w" using a(1) by (intro mult_le_mono1) simp
  finally show ?thesis .
qed

lemma nth_tab_rows:
  "i < h \<Longrightarrow> j < w \<Longrightarrow> concat (map (\<lambda>i. map (f i) [0..<w]) [0..<h]) ! (i * w + j) = f i j"
proof (induction h)
  case 0
  then show ?case by simp
next
  case (Suc h)
  show ?case
  proof (cases "i < h")
    case True
    then have "i * w + j < h * w" using Suc.prems(2) by (simp add: index2_less)
    then show ?thesis using Suc True
      by (simp add: nth_append length_tab_rows)
  next
    case False
    then have "i = h" using Suc.prems(1) by simp
    then show ?thesis using Suc.prems(2)
      by (simp add: nth_append length_tab_rows)
  qed
qed

lemma shape_tabulate2 [simp]: "shape (tabulate2 h w f) = [h, w]"
  by (simp add: tabulate2_def)

lemma length_data_tabulate2 [simp]: "length (data (tabulate2 h w f)) = h * w"
  by (simp add: tabulate2_def length_tab_rows)

lemma data_tabulate2_nth:
  "i < h \<Longrightarrow> j < w \<Longrightarrow> data (tabulate2 h w f) ! (i * w + j) = f i j"
  by (simp add: tabulate2_def nth_tab_rows)

lemma at2_tabulate2 [simp]:
  "i < h \<Longrightarrow> j < w \<Longrightarrow> at2 (tabulate2 h w f) i j = f i j"
  by (simp add: at2_def data_tabulate2_nth)

text \<open>Two arrays of one shape are equal when they agree at every index pair.\<close>

lemma data_eqI2:
  assumes la: "length xs = h * w" and lb: "length ys = h * w"
    and eq: "\<And>i j. i < h \<Longrightarrow> j < w \<Longrightarrow> xs ! (i * w + j) = ys ! (i * w + j)"
  shows "xs = ys"
proof (rule nth_equalityI)
  show "length xs = length ys" using la lb by simp
next
  fix k assume "k < length xs"
  then have k: "k < h * w" using la by simp
  then have w: "0 < w" by (cases w) simp_all
  have "k div w < h" using k by (simp add: less_mult_imp_div_less)
  moreover have "k mod w < w" using w by simp
  ultimately have "xs ! (k div w * w + k mod w) = ys ! (k div w * w + k mod w)"
    by (rule eq)
  then show "xs ! k = ys ! k" by simp
qed

lemma tabulate2_at2_id:
  assumes "shape a = [h, w]" and "length (data a) = h * w"
  shows "tabulate2 h w (at2 a) = a"
proof -
  have "data (tabulate2 h w (at2 a)) = data a"
  proof (rule data_eqI2 [where h = h and w = w])
    fix i j assume "i < h" "j < w"
    then show "data (tabulate2 h w (at2 a)) ! (i * w + j) = data a ! (i * w + j)"
      using assms(1) by (simp add: data_tabulate2_nth at2_def)
  qed (simp_all add: assms)
  then show ?thesis using assms(1) by (simp add: tabulate2_def)
qed

lemma length_setitem_mask:
  "length (data (setitem_mask a m v)) = min (length (data m)) (length (data a))"
  by (simp add: setitem_mask_def)

lemma setitem_mask_nth:
  "k < length (data m) \<Longrightarrow> k < length (data a) \<Longrightarrow>
   data (setitem_mask a m v) ! k = (if data m ! k then v else data a ! k)"
  by (simp add: setitem_mask_def)

lemma uint8_le_iff:
  "0 \<le> x \<Longrightarrow> x \<le> 255 \<Longrightarrow> (word_of_int x \<le> (p::uint8)) = (x \<le> uint p)"
  by (simp add: word_le_def uint_word_of_int)

lemma uint8_ge_iff:
  "0 \<le> x \<Longrightarrow> x \<le> 255 \<Longrightarrow> ((p::uint8) \<le> word_of_int x) = (uint p \<le> x)"
  by (simp add: word_le_def uint_word_of_int)

subsection \<open>Binarisation\<close>

lemma byte_triple_nth:
  "byte_triple xs \<Longrightarrow> c < 3 \<Longrightarrow> 0 \<le> xs ! c \<and> xs ! c \<le> 255"
  by (simp add: byte_triple_def list_all_length)

lemma convert_to_bw_pixels:
  assumes sh: "shape img = [h, w, 3]" and ne: "0 < h" "0 < w"
    and lo: "byte_triple (lowerBound spec)" and hi: "byte_triple (upperBound spec)"
  shows "\<exists>out. convert_to_bw img spec = Inr out \<and> shape out = [h, w] \<and>
           length (data out) = h * w \<and>
           (\<forall>i<h. \<forall>j<w. at2 out i j = (if in_bounds spec img i j then 0 else 255))"
proof -
  define ranged where "ranged = tabulate2 h w (\<lambda>i j.
     if list_all (\<lambda>c. map word_of_int (lowerBound spec) ! c \<le> at3 img i j c \<and>
                       at3 img i j c \<le> map word_of_int (upperBound spec) ! c) [0, 1, 2]
     then (255::uint8) else 0)"
  define gray where "gray = tabulate2 h w
     (\<lambda>i j. bgr2gray (at3 img i j 0) (at3 img i j 1) (at3 img i j 2))"
  define out where
    "out = setitem_mask (setitem_mask gray (np_eq ranged 0) 255) (np_invert (np_eq ranged 0)) 0"
  have run: "convert_to_bw img spec = Inr out"
    using sh ne lo hi
    by (simp add: convert_to_bw_def ndim_def np_array_uint8_def byte_triple_def
        cv2_inRange_def cv2_cvtColor_BGR2GRAY_def out_def ranged_def gray_def Let_def)
  have shp: "shape out = [h, w]"
    by (simp add: out_def setitem_mask_def gray_def)
  have len: "length (data out) = h * w"
    by (simp add: out_def setitem_mask_def np_eq_def np_invert_def gray_def ranged_def)
  have px: "at2 out i j = (if in_bounds spec img i j then 0 else 255)" if "i < h" "j < w" for i j
  proof -
    have k: "i * w + j < h * w" using that by (rule index2_less)
    have l3: "length (lowerBound spec) = 3" and u3: "length (upperBound spec) = 3"
      using lo hi by (simp_all add: byte_triple_def)
    have el: "(word_of_int (lowerBound spec ! c) \<le> at3 img i j c) =
              (lowerBound spec ! c \<le> uint (at3 img i j c))" if "c < 3" for c
      using byte_triple_nth [OF lo that] by (simp add: uint8_le_iff)
    have eu: "(at3 img i j c \<le> word_of_int (upperBound spec ! c)) =
              (uint (at3 img i j c) \<le> upperBound spec ! c)" if "c < 3" for c
      using byte_triple_nth [OF hi that] by (simp add: uint8_ge_iff)
    have m: "data ranged ! (i * w + j) = (if in_bounds spec img i j then 255 else 0)"
      using that el [of 0] el [of 1] el [of 2] eu [of 0] eu [of 1] eu [of 2]
      by (simp add: ranged_def data_tabulate2_nth in_bounds_def l3 u3)
    have li: "length (data ranged) = h * w" and lg: "length (data gray) = h * w"
      by (simp_all add: ranged_def gray_def)
    have "data out ! (i * w + j) = (if in_bounds spec img i j then 0 else 255)"
      unfolding out_def using k m li lg
      by (simp add: setitem_mask_nth length_setitem_mask np_eq_def np_invert_def)
    then show ?thesis by (simp add: at2_def shp)
  qed
  show ?thesis using run shp len px by blast
qed

text \<open>
  Claim C1, as the code has it. For every non-empty three-channel BGR image and every
  spec whose bounds are byte triples, \<^verbatim>\<open>__convert_to_bw\<close> returns a single-channel image
  of the same height and width in which every pixel whose channels all lie within
  \<open>[lowerBound, upperBound]\<close> (inclusive) is 0 (black) and every other pixel is 255
  (white). In particular, when the bounds cover every pixel of the image, the output is
  entirely black.
\<close>

theorem convert_to_bw_in_bounds_black:
  assumes "shape img = [h, w, 3]" and "0 < h" and "0 < w"
    and "byte_triple (lowerBound spec)" and "byte_triple (upperBound spec)"
  shows "\<exists>out. convert_to_bw img spec = Inr out \<and> ndim out = 2 \<and> shape out = [h, w] \<and>
           (\<forall>i<h. \<forall>j<w. at2 out i j = (if in_bounds spec img i j then 0 else 255)) \<and>
           ((\<forall>i<h. \<forall>j<w. in_bounds spec img i j) \<longrightarrow> data out = replicate (h * w) 0)"
proof -
  obtain out where run: "convert_to_bw img spec = Inr out" and shp: "shape out = [h, w]"
    and len: "length (data out) = h * w"
    and px: "\<forall>i<h. \<forall>j<w. at2 out i j = (if in_bounds spec img i j then 0 else 255)"
    using convert_to_bw_pixels [OF assms] by blast
  have black: "data out = replicate (h * w) 0" if all: "\<forall>i<h. \<forall>j<w. in_bounds spec img i j"
  proof (rule data_eqI2 [where h = h and w = w])
    fix i j assume ij: "i < h" "j < w"
    then have "at2 out i j = 0" using px all by simp
    then show "data out ! (i * w + j) = replicate (h * w) 0 ! (i * w + j)"
      using ij shp by (simp add: at2_def index2_less)
  qed (simp_all add: len)
  show ?thesis using run shp px black by (auto simp: ndim_def)
qed

theorem convert_to_bw_in_bounds_black_witness:
  "shape img_1x2 = [1, 2, 3] \<and> byte_triple (lowerBound spec_dark) \<and>
   byte_triple (upperBound spec_dark) \<and> in_bounds spec_dark img_1x2 0 0 \<and>
   \<not> in_bounds spec_dark img_1x2 0 1 \<and>
   (\<exists>out. convert_to_bw img_1x2 spec_dark = Inr out \<and> shape out = [1, 2] \<and>
      at2 out 0 0 = 0 \<and> at2 out 0 1 = 255)"
proof -
  have sh: "shape img_1x2 = [1, 2, 3]" by (simp add: img_1x2_def)
  have lo: "byte_triple (lowerBound spec_dark)" and hi: "byte_triple (upperBound spec_dark)"
    by (simp_all add: byte_triple_def spec_dark_def)
  have b0: "in_bounds spec_dark img_1x2 0 0" and b1: "\<not> in_bounds spec_dark img_1x2 0 1"
    by (simp_all add: in_bounds_def spec_dark_def img_1x2_def at3_def)
  from convert_to_bw_in_bounds_black [OF sh _ _ lo hi]
  obtain out where "convert_to_bw img_1x2 spec_dark = Inr out" and "shape out = [1, 2]"
    and "\<forall>i<1. \<forall>j<2. at2 out i j = (if in_bounds spec_dark img_1x2 i j then 0 else 255)"
    by auto
  then show ?thesis using sh lo hi b0 b1 by auto
qed

text \<open>
  Against claim C1 as stated: the bounds of \<open>spec_any\<close> cover the only pixel of
  \<open>img_1x1\<close>, and the output is that pixel set to 0, not to 255.
\<close>

theorem convert_to_bw_covered_pixel_is_black:
  "convert_to_bw img_1x1 spec_any = Inr \<lparr>shape = [1, 1], data = [0]\<rparr>"
  by (simp add: convert_to_bw_def img_1x1_def spec_any_def ndim_def np_array_uint8_def
      cv2_inRange_def tabulate2_def at3_def np_eq_def cv2_cvtColor_BGR2GRAY_def
      setitem_mask_def np_invert_def)

subsection \<open>Resolution improvement\<close>

lemma sorted_le_last: "sorted xs \<Longrightarrow> (i::nat) \<in> set xs \<Longrightarrow> i \<le> last xs"
  by (induction xs) auto

lemma filter_upt_hd:
  assumes "filter P [0..<n] \<noteq> []"
  shows "hd (filter P [0..<n]) < n" and "P (hd (filter P [0..<n]))"
    and "\<And>i. i < hd (filter P [0..<n]) \<Longrightarrow> \<not> P i"
proof -
  define xs where "xs = filter P [0..<n]"
  obtain x ys where xs: "xs = x # ys" using assms by (cases xs) (simp_all add: xs_def)
  have srt: "sorted xs" by (simp add: xs_def sorted_wrt_filter)
  have mem: "x \<in> set xs" by (simp add: xs)
  then have x: "x < n" "P x" by (simp_all add: xs_def)
  have low: "\<not> P i" if "i < x" for i
  proof
    assume "P i"
    then have "i \<in> set xs" using that x(1) by (simp add: xs_def)
    then have "x \<le> i" using srt by (auto simp: xs)
    then show False using that by simp
  qed
  show "hd (filter P [0..<n]) < n" "P (hd (filter P [0..<n]))"
    using x xs by (simp_all add: xs_def [symmetric])
  show "\<And>i. i < hd (filter P [0..<n]) \<Longrightarrow> \<not> P i"
    using low xs by (simp add: xs_def [symmetric])
qed

lemma filter_upt_last:
  assumes "filter P [0..<n] \<noteq> []"
  shows "last (filter P [0..<n]) < n" and "P (last (filter P [0..<n]))"
    and "\<And>i. last (filter P [0..<n]) < i \<Longrightarrow> i < n \<Longrightarrow> \<not> P i"
proof -
  define xs where "xs = filter P [0..<n]"
  have set_xs: "y \<in> set xs \<longleftrightarrow> y < n \<and> P y" for y by (simp add: xs_def)
  have srt: "sorted xs" unfolding xs_def by (rule sorted_wrt_filter) simp
  have ne: "xs \<noteq> []" using assms unfolding xs_def .
  then have mem: "last xs \<in> set xs" by (rule last_in_set)
  have x: "last xs < n" "P (last xs)" using mem set_xs by blast+
  have high: "\<not> P i" if "last xs < i" "i < n" for i
  proof
    assume "P i"
    then have "i \<in> set xs" using that set_xs by blast
    then have "i \<le> last xs" using srt by (rule sorted_le_last [rotated])
    then show False using that by simp
  qed
  show "last (filter P [0..<n]) < n" "P (last (filter P [0..<n]))"
    using x unfolding xs_def .
  show "\<And>i. last (filter P [0..<n]) < i \<Longrightarrow> i < n \<Longrightarrow> \<not> P i"
    using high unfolding xs_def .
qed

lemma filter_upt_hd_le_last:
  assumes "filter P [0..<n] \<noteq> []"
  shows "hd (filter P [0..<n]) \<le> last (filter P [0..<n])"
proof (rule ccontr)
  assume "\<not> ?thesis"
  then have "last (filter P [0..<n]) < hd (filter P [0..<n])" by simp
  then have "\<not> P (last (filter P [0..<n]))" by (rule filter_upt_hd(3) [OF assms])
  then show False using filter_upt_last(2) [OF assms] by simp
qed

lemma all_white_iff:
  "shape img = [h, w] \<Longrightarrow> all_white img \<longleftrightarrow> (\<forall>i<h. \<forall>j<w. at2 img i j = 255)"
  by (auto simp: all_white_def list_all_iff)

lemma row_has_content_iff:
  "shape img = [h, w] \<Longrightarrow> row_has_content img i \<longleftrightarrow> (\<exists>j<w. at2 img i j \<noteq> 255)"
  by (auto simp: row_has_content_def list_ex_iff)

lemma col_has_content_iff:
  "shape img = [h, w] \<Longrightarrow> col_has_content img j \<longleftrightarrow> (\<exists>i<h. at2 img i j \<noteq> 255)"
  by (auto simp: col_has_content_def list_ex_iff)

lemma empty_rows_eq:
  "shape img = [h, w] \<Longrightarrow> empty_rows img = filter (row_has_content img) [0..<h]"
  by (simp add: empty_rows_def row_has_content_def [abs_def] list_all_iff list_ex_iff)

lemma empty_cols_eq:
  "shape img = [h, w] \<Longrightarrow> empty_cols img = filter (col_has_content img) [0..<w]"
  by (simp add: empty_cols_def col_has_content_def [abs_def] list_all_iff list_ex_iff)

lemma empty_rows_Nil_iff:
  "shape img = [h, w] \<Longrightarrow> empty_rows img = [] \<longleftrightarrow> all_white img"
  by (auto simp: empty_rows_eq filter_empty_conv row_has_content_iff all_white_iff)

lemma empty_cols_Nil_iff:
  "shape img = [h, w] \<Longrightarrow> empty_cols img = [] \<longleftrightarrow> all_white img"
  by (auto simp: empty_cols_eq filter_empty_conv col_has_content_iff all_white_iff)

lemma remove_empty_all_white:
  assumes "shape img = [h, w]" and "all_white img"
  shows "remove_empty img = img"
  using assms empty_rows_Nil_iff [OF assms(1)] empty_cols_Nil_iff [OF assms(1)]
  by (simp add: remove_empty_def)

lemma remove_empty_content:
  assumes sh: "shape img = [h, w]" and nw: "\<not> all_white img"
  defines "r0 \<equiv> hd (empty_rows img)" and "r1 \<equiv> last (empty_rows img)"
    and "c0 \<equiv> hd (empty_cols img)" and "c1 \<equiv> last (empty_cols img)"
  shows "bounding_box img r0 r1 c0 c1" and "cut_of (remove_empty img) img r0 r1 c0 c1"
proof -
  have rne: "filter (row_has_content img) [0..<h] \<noteq> []"
    using nw empty_rows_Nil_iff [OF sh] by (simp add: empty_rows_eq [OF sh])
  have cne: "filter (col_has_content img) [0..<w] \<noteq> []"
    using nw empty_cols_Nil_iff [OF sh] by (simp add: empty_cols_eq [OF sh])
  note rh = filter_upt_hd [OF rne] and rl = filter_upt_last [OF rne]
    and ch = filter_upt_hd [OF cne] and cl = filter_upt_last [OF cne]
  have r0: "r0 = hd (filter (row_has_content img) [0..<h])"
    and r1: "r1 = last (filter (row_has_content img) [0..<h])"
    and c0: "c0 = hd (filter (col_has_content img) [0..<w])"
    and c1: "c1 = last (filter (col_has_content img) [0..<w])"
    by (simp_all add: r0_def r1_def c0_def c1_def empty_rows_eq [OF sh] empty_cols_eq [OF sh])
  have ord: "r0 \<le> r1" "r1 < h" "c0 \<le> c1" "c1 < w"
    using filter_upt_hd_le_last [OF rne] filter_upt_hd_le_last [OF cne] rl(1) cl(1)
    by (simp_all add: r0 r1 c0 c1)
  have border: "row_has_content img r0" "row_has_content img r1"
    "col_has_content img c0" "col_has_content img c1"
    using rh(2) rl(2) ch(2) cl(2) by (simp_all add: r0 r1 c0 c1)
  have inside: "r0 \<le> i \<and> i \<le> r1 \<and> c0 \<le> j \<and> j \<le> c1"
    if "i < h" "j < w" "at2 img i j \<noteq> 255" for i j
  proof -
    have ri: "row_has_content img i" and cj: "col_has_content img j"
      using that by (auto simp: row_has_content_iff [OF sh] col_has_content_iff [OF sh])
    have "\<not> i < r0" using rh(3) ri unfolding r0 by blast
    moreover have "\<not> r1 < i" using rl(3) ri that(1) unfolding r1 by blast
    moreover have "\<not> j < c0" using ch(3) cj unfolding c0 by blast
    moreover have "\<not> c1 < j" using cl(3) cj that(2) unfolding c1 by blast
    ultimately show ?thesis by simp
  qed
  show "bounding_box img r0 r1 c0 c1"
    using ord border inside by (auto simp: bounding_box_def sh list_all_iff)
  define img1 where "img1 = slice_rows img r0 (r1 + 1)"
  have img1: "img1 = tabulate2 (r1 + 1 - r0) w (\<lambda>i j. at2 img (r0 + i) j)"
    using ord by (simp add: img1_def slice_rows_def sh Let_def min_def)
  have re: "remove_empty img = slice_cols img1 c0 (c1 + 1)"
    using rne cne
    by (simp add: remove_empty_def Let_def empty_rows_eq [OF sh] empty_cols_eq [OF sh]
        img1_def r0 r1 c0 c1)
  have out: "remove_empty img = tabulate2 (r1 + 1 - r0) (c1 + 1 - c0) (\<lambda>i j. at2 img1 i (c0 + j))"
    using ord by (simp add: re slice_cols_def img1 Let_def min_def)
  have px: "at2 (remove_empty img) i j = at2 img (r0 + i) (c0 + j)"
    if "i < r1 + 1 - r0" "j < c1 + 1 - c0" for i j
  proof -
    have "c0 + j < w" using that(2) ord by simp
    then show ?thesis using that by (simp add: out) (simp add: img1)
  qed
  show "cut_of (remove_empty img) img r0 r1 c0 c1"
    using px by (simp add: cut_of_def list_all_iff) (simp add: out)
qed

lemma cut_of_whole:
  assumes sh: "shape img = [h, w]" and len: "length (data img) = h * w"
    and h: "0 < h" and w: "0 < w" and cut: "cut_of out img 0 (h - 1) 0 (w - 1)"
  shows "out = img"
proof -
  have so: "shape out = [h, w]" and lo: "length (data out) = h * w"
    and px: "\<And>i j. i < h \<Longrightarrow> j < w \<Longrightarrow> at2 out i j = at2 img i j"
    using cut h w by (simp_all add: cut_of_def list_all_iff)
  have "data out = data img"
  proof (rule data_eqI2 [where h = h and w = w])
    fix i j assume "i < h" "j < w"
    then show "data out ! (i * w + j) = data img ! (i * w + j)"
      using px [of i j] by (simp add: at2_def so sh)
  qed (simp_all add: lo len)
  then show ?thesis using so sh by simp
qed

lemma remove_empty_no_white_border:
  assumes sh: "shape img = [h, w]" and len: "length (data img) = h * w"
    and nb: "no_white_border img"
  shows "remove_empty img = img"
proof -
  have h: "0 < h" and w: "0 < w"
    and b: "row_has_content img 0" "row_has_content img (h - 1)"
      "col_has_content img 0" "col_has_content img (w - 1)"
    using nb by (simp_all add: no_white_border_def sh)
  have nw: "\<not> all_white img"
    using b(1) h by (auto simp: all_white_iff [OF sh] row_has_content_iff [OF sh])
  have rne: "filter (row_has_content img) [0..<h] \<noteq> []"
    using nw empty_rows_Nil_iff [OF sh] by (simp add: empty_rows_eq [OF sh])
  have cne: "filter (col_has_content img) [0..<w] \<noteq> []"
    using nw empty_cols_Nil_iff [OF sh] by (simp add: empty_cols_eq [OF sh])
  have "\<not> 0 < hd (filter (row_has_content img) [0..<h])"
    using filter_upt_hd(3) [OF rne] b(1) by blast
  then have r0: "hd (empty_rows img) = 0" by (simp add: empty_rows_eq [OF sh])
  have "\<not> 0 < hd (filter (col_has_content img) [0..<w])"
    using filter_upt_hd(3) [OF cne] b(3) by blast
  then have c0: "hd (empty_cols img) = 0" by (simp add: empty_cols_eq [OF sh])
  have "\<not> last (filter (row_has_content img) [0..<h]) < h - 1"
    using filter_upt_last(3) [OF rne, of "h - 1"] b(2) h by auto
  then have r1: "last (empty_rows img) = h - 1"
    using filter_upt_last(1) [OF rne] by (simp add: empty_rows_eq [OF sh])
  have "\<not> last (filter (col_has_content img) [0..<w]) < w - 1"
    using filter_upt_last(3) [OF cne, of "w - 1"] b(4) w by auto
  then have c1: "last (empty_cols img) = w - 1"
    using filter_upt_last(1) [OF cne] by (simp add: empty_cols_eq [OF sh])
  have "cut_of (remove_empty img) img 0 (h - 1) 0 (w - 1)"
    using remove_empty_content(2) [OF sh nw] by (simp add: r0 r1 c0 c1)
  then show ?thesis by (rule cut_of_whole [OF sh len h w])
qed

lemma np_pad_padded_by: "padded_by p v a (np_pad a p v)"
  by (simp add: padded_by_def np_pad_def Let_def list_all_iff)

lemma floor_half: "\<lfloor>(of_int a :: rat) + 1 / 2\<rfloor> = a"
  by (simp add: floor_unique)

lemma cvRound_even: "cvRound (5 / 2 * of_nat (2 * k)) = 5 * k"
proof -
  have "(5 / 2 * of_nat (2 * k) :: rat) = of_int (int (5 * k))" by simp
  then show ?thesis unfolding cvRound_def by (simp only: Let_def floor_of_int) simp
qed

lemma cvRound_odd:
  "cvRound (5 / 2 * of_nat (2 * k + 1)) = (if even k then 5 * k + 2 else 5 * k + 3)"
proof -
  have e: "(5 / 2 * of_nat (2 * k + 1) :: rat) = of_int (int (5 * k + 2)) + 1 / 2"
    by (simp add: field_simps)
  have f: "\<lfloor>(of_int (int (5 * k + 2)) :: rat) + 1 / 2\<rfloor> = int (5 * k + 2)"
    by (rule floor_half)
  show ?thesis unfolding cvRound_def e Let_def f by (simp add: nat_add_distrib)
qed

lemma cvRound_scaled: "scaled_5_2 n (cvRound (5 / 2 * of_nat n))"
proof (cases "even n")
  case True
  then obtain k where "n = 2 * k" by (elim evenE)
  then show ?thesis using cvRound_even [of k] by (simp add: scaled_5_2_def)
next
  case False
  then obtain k where "n = 2 * k + 1" by (elim oddE)
  then show ?thesis using cvRound_odd [of k] by (simp add: scaled_5_2_def)
qed

lemma shape_remove_empty:
  assumes "shape img = [h, w]"
  shows "\<exists>h' w'. shape (remove_empty img) = [h', w']"
proof (cases "all_white img")
  case True
  then show ?thesis using remove_empty_all_white [OF assms] assms by simp
next
  case False
  then show ?thesis using remove_empty_content(2) [OF assms] by (auto simp: cut_of_def)
qed

lemma shape_cv2_resize:
  "shape src = [h, w] \<Longrightarrow>
   shape (cv2_resize cv src (5 / 2) (5 / 2)) =
     [cvRound (5 / 2 * of_nat h), cvRound (5 / 2 * of_nat w)]"
  by (simp add: cv2_resize_def Let_def)

text \<open>
  Claim C2, as the code has it. For every single-channel image, \<^verbatim>\<open>__improve_resolution\<close>
  cuts the image to the bounding box of its pixels other than 255 (an entirely white
  image is not cut, and neither is an image with no entirely white border row or
  column), pads the result with 15 pixels of 255 on each of the four sides, and hands
  that to \<^verbatim>\<open>cv2.resize\<close> with factors 2.5 and linear interpolation. The output has 2.5
  times the padded height and width when these are even; an odd padded dimension is
  scaled to one of the two integers next to 2.5 times it.
\<close>

theorem improve_resolution_crop_pad_scale:
  fixes cv :: cv2_env and img :: "uint8 ndarray"
  defines "cropped \<equiv> remove_empty img"
  defines "padded \<equiv> np_pad cropped 15 255"
  defines "out \<equiv> cv2_resize cv padded (5 / 2) (5 / 2)"
  assumes sh: "shape img = [h, w]" and len: "length (data img) = h * w"
  shows "(all_white img \<longrightarrow> cropped = img) \<and>
     (\<not> all_white img \<longrightarrow>
        (\<exists>r0 r1 c0 c1. bounding_box img r0 r1 c0 c1 \<and> cut_of cropped img r0 r1 c0 c1)) \<and>
     (no_white_border img \<longrightarrow> cropped = img) \<and>
     padded_by 15 255 cropped padded \<and>
     improve_resolution cv img = Inr out \<and>
     data out = INTER_LINEAR cv padded (shape out) \<and>
     (\<exists>h' w' H W. shape cropped = [h', w'] \<and> shape padded = [h' + 30, w' + 30] \<and>
        shape out = [H, W] \<and> scaled_5_2 (h' + 30) H \<and> scaled_5_2 (w' + 30) W)"
proof -
  obtain h' w' where sc: "shape cropped = [h', w']"
    unfolding cropped_def using shape_remove_empty [OF sh] by blast
  have sp: "shape padded = [h' + 30, w' + 30]"
    by (simp add: padded_def np_pad_def Let_def sc)
  have so: "shape out = [cvRound (5 / 2 * of_nat (h' + 30)), cvRound (5 / 2 * of_nat (w' + 30))]"
    unfolding out_def by (rule shape_cv2_resize [OF sp])
  have a: "all_white img \<longrightarrow> cropped = img"
    unfolding cropped_def using remove_empty_all_white [OF sh] by blast
  have b: "\<not> all_white img \<longrightarrow>
        (\<exists>r0 r1 c0 c1. bounding_box img r0 r1 c0 c1 \<and> cut_of cropped img r0 r1 c0 c1)"
    unfolding cropped_def using remove_empty_content [OF sh] by blast
  have c: "no_white_border img \<longrightarrow> cropped = img"
    unfolding cropped_def using remove_empty_no_white_border [OF sh len] by blast
  have d: "padded_by 15 255 cropped padded"
    unfolding padded_def by (rule np_pad_padded_by)
  have e: "improve_resolution cv img = Inr out"
    by (simp add: improve_resolution_def ndim_def sh Let_def out_def padded_def cropped_def)
  have f: "data out = INTER_LINEAR cv padded (shape out)"
    by (simp add: out_def cv2_resize_def Let_def)
  have g: "\<exists>h' w' H W. shape cropped = [h', w'] \<and> shape padded = [h' + 30, w' + 30] \<and>
        shape out = [H, W] \<and> scaled_5_2 (h' + 30) H \<and> scaled_5_2 (w' + 30) W"
    using sc sp so cvRound_scaled [of "h' + 30"] cvRound_scaled [of "w' + 30"] by blast
  show ?thesis by (intro conjI; fact)
qed

lemma remove_empty_img_4x4:
  "remove_empty img_4x4 = \<lparr>shape = [2, 2], data = [0, 7, 9, 0]\<rparr>"
  by code_simp

lemma remove_empty_img_3x3:
  "remove_empty img_3x3 = \<lparr>shape = [1, 1], data = [0]\<rparr>"
  by code_simp

theorem improve_resolution_crop_pad_scale_witness:
  "shape img_4x4 = [4, 4] \<and> length (data img_4x4) = 4 * 4 \<and>
   remove_empty img_4x4 = \<lparr>shape = [2, 2], data = [0, 7, 9, 0]\<rparr> \<and>
   (\<forall>cv. \<exists>out. improve_resolution cv img_4x4 = Inr out \<and> shape out = [80, 80])"
proof -
  have sh: "shape img_4x4 = [4, 4]" and len: "length (data img_4x4) = 4 * 4"
    by (simp_all add: img_4x4_def)
  have "\<exists>out. improve_resolution cv img_4x4 = Inr out \<and> shape out = [80, 80]" for cv
  proof -
    note t = improve_resolution_crop_pad_scale [OF sh len, of cv]
    note run = t [THEN conjunct2, THEN conjunct2, THEN conjunct2, THEN conjunct2, THEN conjunct1]
    note dims = t [THEN conjunct2, THEN conjunct2, THEN conjunct2, THEN conjunct2,
        THEN conjunct2, THEN conjunct2]
    from dims obtain H W where
      "shape (cv2_resize cv (np_pad (remove_empty img_4x4) 15 255) (5 / 2) (5 / 2)) = [H, W]"
      and "scaled_5_2 32 H" and "scaled_5_2 32 W"
      by (auto simp: remove_empty_img_4x4)
    then show ?thesis using run by (simp add: scaled_5_2_def)
  qed
  then show ?thesis using sh len remove_empty_img_4x4 by simp
qed

text \<open>
  Against claim C2 as stated: the one black pixel of \<open>img_3x3\<close> is cut out and padded
  to 31 by 31, and the output is 78 by 78. No whole number of pixels is 2.5 times 31.
\<close>

theorem improve_resolution_odd_size:
  "shape (np_pad (remove_empty img_3x3) 15 255) = [31, 31] \<and>
   map_sum id shape (improve_resolution cv_blank img_3x3) = Inr [78, 78]"
proof -
  have c: "cvRound (5 / 2 * of_nat 31) = 78"
    using cvRound_odd [of 15] by simp
  have p: "shape (np_pad (remove_empty img_3x3) 15 255) = [31, 31]"
    by (simp add: remove_empty_img_3x3 np_pad_def Let_def)
  have "improve_resolution cv_blank img_3x3 =
          Inr (cv2_resize cv_blank (np_pad (remove_empty img_3x3) 15 255) (5 / 2) (5 / 2))"
    by (simp add: improve_resolution_def ndim_def img_3x3_def Let_def)
  then show ?thesis using p c shape_cv2_resize [OF p, of cv_blank] by simp
qed

subsection \<open>The precondition of \<^verbatim>\<open>extract_text\<close>\<close>

text \<open>What the assertion does reject, and what it lets through.\<close>

lemma extract_text_rejects_other_ndim:
  "ndim img \<noteq> 3 \<Longrightarrow>
   extract_text cv img spec preview prepare_image =
     (Inl (AssertionError ''Image must be BGR''), [])"
  by (simp add: extract_text_def)

lemma extract_text_passes_three_dimensions:
  "shape img = [h, w, cn] \<Longrightarrow>
   snd (extract_text cv img spec preview prepare_image) \<noteq> []"
  by (simp add: extract_text_def ndim_def Let_def split: option.splits sum.splits prod.splits)

text \<open>
  Claim C7 at a four-channel pixel. The array has three dimensions, so the assertion
  \<^verbatim>\<open>img.ndim == 3\<close> (whose message is "Image must be BGR") lets it through: the first
  pipeline step runs and fails inside OpenCV, and with a custom preparation step both
  that step and the OCR engine run.
\<close>

theorem extract_text_accepts_four_channels:
  "ndim img_bgra = 3 \<and> shape img_bgra ! 2 = 4 \<and>
   extract_text cv_blank img_bgra spec_any False None = (Inl Cv2Error, [ConvertToBW]) \<and>
   extract_text cv_blank img_bgra spec_any False (Some Inr) =
     (Inr ''text'', [PrepareImage, ImageToString ''-l eng --psm 7''])"
  by (simp add: extract_text_def img_bgra_def ndim_def convert_to_bw_def spec_any_def
      np_array_uint8_def cv2_inRange_def cv_blank_def format_def strip_def isspace_def)

subsection \<open>Polling\<close>
lemma wait_for_loop_true:
  assumes "\<And>i. n \<le> i \<Longrightarrow> i < k \<Longrightarrow> condition i = Inr False"
    and "condition k = Inr True"
    and "\<And>i. n < i \<Longrightarrow> i \<le> k \<Longrightarrow> clock i - start \<le> timeout"
    and "n < k \<Longrightarrow> 0 \<le> interval" and "n \<le> k"
  shows "wait_for_loop condition clock timeout interval start n tr =
           Some (Inr True, tr @ concat (replicate (k - n) (wait_for_round interval)) @ [Call])"
  using assms
proof (induction "k - n" arbitrary: n tr)
  case 0
  then have "n = k" by simp
  then show ?case using "0.prems"(2) by (subst wait_for_loop.simps) simp
next
  case (Suc d)
  then have nk: "n < k" by simp
  have c: "condition n = Inr False" using Suc.prems(1) nk by simp
  have t: "\<not> clock (Suc n) - start > timeout" using Suc.prems(3) [of "Suc n"] nk by simp
  have i: "\<not> interval < 0" using Suc.prems(4) nk by simp
  have d: "d = k - Suc n" using Suc.hyps(2) by simp
  have rep: "k - n = Suc (k - Suc n)" using nk by simp
  have "wait_for_loop condition clock timeout interval start (Suc n)
          (tr @ [Call, Time, Sleep interval]) =
        Some (Inr True, (tr @ [Call, Time, Sleep interval]) @
          concat (replicate (k - Suc n) (wait_for_round interval)) @ [Call])"
    using Suc.prems nk by (intro Suc.hyps(1) [OF d]) simp_all
  then show ?case using c t i
    by (subst wait_for_loop.simps) (simp add: rep wait_for_round_def)
qed

lemma wait_for_loop_false:
  assumes "\<And>i. n \<le> i \<Longrightarrow> i \<le> k \<Longrightarrow> condition i = Inr False"
    and "\<And>i. n < i \<Longrightarrow> i \<le> k \<Longrightarrow> clock i - start \<le> timeout"
    and "timeout < clock (Suc k) - start"
    and "n < k \<Longrightarrow> 0 \<le> interval" and "n \<le> k"
  shows "wait_for_loop condition clock timeout interval start n tr =
           Some (Inr False, tr @ concat (replicate (k - n) (wait_for_round interval)) @ [Call, Time])"
  using assms
proof (induction "k - n" arbitrary: n tr)
  case 0
  then have "n = k" by simp
  then show ?case using "0.prems"(1) [of k] "0.prems"(3)
    by (subst wait_for_loop.simps) simp
next
  case (Suc d)
  then have nk: "n < k" by simp
  have c: "condition n = Inr False" using Suc.prems(1) nk by simp
  have t: "\<not> clock (Suc n) - start > timeout" using Suc.prems(2) [of "Suc n"] nk by simp
  have i: "\<not> interval < 0" using Suc.prems(4) nk by simp
  have d: "d = k - Suc n" using Suc.hyps(2) by simp
  have rep: "k - n = Suc (k - Suc n)" using nk by simp
  have "wait_for_loop condition clock timeout interval start (Suc n)
          (tr @ [Call, Time, Sleep interval]) =
        Some (Inr False, (tr @ [Call, Time, Sleep interval]) @
          concat (replicate (k - Suc n) (wait_for_round interval)) @ [Call, Time])"
    using Suc.prems nk by (intro Suc.hyps(1) [OF d]) simp_all
  then show ?case using c t i
    by (subst wait_for_loop.simps) (simp add: rep wait_for_round_def)
qed

lemma wait_to_be_set_loop_value:
  assumes "\<And>i. n \<le> i \<Longrightarrow> i \<le> k \<Longrightarrow> clock i - start \<le> timeout"
    and "\<And>i. n \<le> i \<Longrightarrow> i < k \<Longrightarrow> condition i = Inr None"
    and "condition k = Inr (Some v)"
    and "0 \<le> interval" and "n \<le> k"
  shows "wait_to_be_set_loop condition clock timeout interval start n None tr =
           Some (Inr (Some v),
             tr @ concat (replicate (Suc k - n) (wait_to_be_set_round interval)))"
  using assms
proof (induction "k - n" arbitrary: n tr)
  case 0
  then have nk: "n = k" by simp
  have t: "\<not> clock k - start > timeout" using "0.prems"(1) [of k] nk by simp
  show ?case using nk t "0.prems"(3,4)
    by (subst wait_to_be_set_loop.simps, simp, subst wait_to_be_set_loop.simps)
      (simp add: wait_to_be_set_round_def)
next
  case (Suc d)
  then have nk: "n < k" by simp
  have c: "condition n = Inr None" using Suc.prems(2) nk by simp
  have t: "\<not> clock n - start > timeout" using Suc.prems(1) [of n] nk by simp
  have i: "\<not> interval < 0" using Suc.prems(4) by simp
  have d: "d = k - Suc n" using Suc.hyps(2) by simp
  have rep: "Suc k - n = Suc (Suc k - Suc n)" using nk by simp
  have "wait_to_be_set_loop condition clock timeout interval start (Suc n) None
          (tr @ [Time, Sleep interval, Call]) =
        Some (Inr (Some v), (tr @ [Time, Sleep interval, Call]) @
          concat (replicate (Suc k - Suc n) (wait_to_be_set_round interval)))"
    using Suc.prems nk by (intro Suc.hyps(1) [OF d]) simp_all
  then show ?case using c t i
    by (subst wait_to_be_set_loop.simps) (simp add: rep wait_to_be_set_round_def)
qed

lemma wait_to_be_set_loop_timeout:
  assumes "\<And>i. n \<le> i \<Longrightarrow> i < k \<Longrightarrow> clock i - start \<le> timeout"
    and "\<And>i. n \<le> i \<Longrightarrow> i < k \<Longrightarrow> condition i = Inr None"
    and "timeout < clock k - start"
    and "n < k \<Longrightarrow> 0 \<le> interval" and "n \<le> k"
  shows "wait_to_be_set_loop condition clock timeout interval start n None tr =
           Some (Inr None,
             tr @ concat (replicate (k - n) (wait_to_be_set_round interval)) @ [Time])"
  using assms
proof (induction "k - n" arbitrary: n tr)
  case 0
  then have nk: "n = k" by simp
  show ?case using nk "0.prems"(3)
    by (subst wait_to_be_set_loop.simps) simp
next
  case (Suc d)
  then have nk: "n < k" by simp
  have c: "condition n = Inr None" using Suc.prems(2) nk by simp
  have t: "\<not> clock n - start > timeout" using Suc.prems(1) [of n] nk by simp
  have i: "\<not> interval < 0" using Suc.prems(4) nk by simp
  have d: "d = k - Suc n" using Suc.hyps(2) by simp
  have rep: "k - n = Suc (k - Suc n)" using nk by simp
  have "wait_to_be_set_loop condition clock timeout interval start (Suc n) None
          (tr @ [Time, Sleep interval, Call]) =
        Some (Inr None, (tr @ [Time, Sleep interval, Call]) @
          concat (replicate (k - Suc n) (wait_to_be_set_round interval)) @ [Time])"
    using Suc.prems nk by (intro Suc.hyps(1) [OF d]) simp_all
  then show ?case using c t i
    by (subst wait_to_be_set_loop.simps) (simp add: rep wait_to_be_set_round_def)
qed

lemma wait_to_be_set_loop_extends:
  assumes run: "wait_to_be_set_loop condition clock timeout interval start n result tr = Some y"
  shows "\<exists>s. snd y = tr @ s"
proof (rule wait_to_be_set_loop.raw_induct
    [where P = "\<lambda>condition clock timeout interval start n result tr y. \<exists>s. snd y = tr @ s",
      OF _ run])
  fix S :: "(nat \<Rightarrow> error + 'a option) \<Rightarrow> (nat \<Rightarrow> real) \<Rightarrow> real \<Rightarrow> real \<Rightarrow> real \<Rightarrow> nat
      \<Rightarrow> 'a option \<Rightarrow> event list \<Rightarrow> ((error + 'a option) \<times> event list) option"
  fix condition clock timeout interval start n result tr y
  assume IH: "\<And>condition clock timeout interval start n result tr y.
      S condition clock timeout interval start n result tr = Some y \<Longrightarrow> \<exists>s. snd y = tr @ s"
  assume body: "(if result = None
      then if timeout < clock n - start then Some (Inr result, tr @ [Time])
           else if interval < 0 then Some (Inl ValueError, tr @ [Time])
                else case condition n of
                     Inl e \<Rightarrow> Some (Inl e, tr @ [Time, Sleep interval, Call])
                     | Inr result' \<Rightarrow>
                         S condition clock timeout interval start (Suc n) result'
                          (tr @ [Time, Sleep interval, Call])
      else Some (Inr result, tr)) = Some y"
  show "\<exists>s. snd y = tr @ s"
  proof (cases "result = None \<and> \<not> timeout < clock n - start \<and> \<not> interval < 0")
    case False
    then show ?thesis using body by (auto split: if_splits)
  next
    case True
    show ?thesis
    proof (cases "condition n")
      case (Inl e)
      then show ?thesis using body True by auto
    next
      case (Inr r)
      then have "S condition clock timeout interval start (Suc n) r
          (tr @ [Time, Sleep interval, Call]) = Some y"
        using body True by simp
      from IH [OF this] show ?thesis by auto
    qed
  qed
qed

lemma wait_for_loop_extends:
  assumes run: "wait_for_loop condition clock timeout interval start n tr = Some y"
  shows "\<exists>s. snd y = tr @ Call # s"
proof (rule wait_for_loop.raw_induct
    [where P = "\<lambda>condition clock timeout interval start n tr y. \<exists>s. snd y = tr @ Call # s",
      OF _ run])
  fix S :: "(nat \<Rightarrow> error + bool) \<Rightarrow> (nat \<Rightarrow> real) \<Rightarrow> real \<Rightarrow> real \<Rightarrow> real \<Rightarrow> nat
      \<Rightarrow> event list \<Rightarrow> ((error + bool) \<times> event list) option"
  fix condition clock timeout interval start n tr y
  assume IH: "\<And>condition clock timeout interval start n tr y.
      S condition clock timeout interval start n tr = Some y \<Longrightarrow> \<exists>s. snd y = tr @ Call # s"
  assume body: "(case condition n of Inl e \<Rightarrow> Some (Inl e, tr @ [Call])
      | Inr c \<Rightarrow>
          if c then Some (Inr True, tr @ [Call])
          else if timeout < clock (Suc n) - start
               then Some (Inr False, tr @ [Call, Time])
               else if interval < 0
                    then Some (Inl ValueError, tr @ [Call, Time])
                    else S condition clock timeout interval start (Suc n)
                          (tr @ [Call, Time, Sleep interval])) = Some y"
  show "\<exists>s. snd y = tr @ Call # s"
  proof (cases "condition n")
    case (Inl e)
    then show ?thesis using body by auto
  next
    case (Inr c)
    show ?thesis
    proof (cases "c \<or> timeout < clock (Suc n) - start \<or> interval < 0")
      case True
      then show ?thesis using body Inr by (auto split: if_splits)
    next
      case False
      then have "S condition clock timeout interval start (Suc n)
          (tr @ [Call, Time, Sleep interval]) = Some y"
        using body Inr by simp
      from IH [OF this] show ?thesis by auto
    qed
  qed
qed

lemma wait_for_starts:
  assumes "wait_for condition clock timeout interval = Some (res, tr)"
  shows "take 2 tr = [Time, Call]"
  using wait_for_loop_extends [of condition clock timeout interval "clock 0" 0 "[Time]" "(res, tr)"]
    assms by (auto simp: wait_for_def)

lemma wait_to_be_set_starts:
  assumes "wait_to_be_set condition clock timeout interval = Some (res, tr)"
  shows "case condition 0 of Inl e \<Rightarrow> res = Inl e \<and> tr = [Call]
         | Inr r \<Rightarrow> take 2 tr = [Call, Time]"
proof (cases "condition 0")
  case (Inl e)
  have "Some (Inl e, [Call]) = Some (res, tr)"
    using assms unfolding wait_to_be_set_def Inl by simp
  then have "res = Inl e \<and> tr = [Call]" by simp
  then show ?thesis unfolding Inl by simp
next
  case (Inr r)
  then have "wait_to_be_set_loop condition clock timeout interval (clock 0) 1 r [Call, Time]
      = Some (res, tr)"
    using assms by (simp add: wait_to_be_set_def)
  from wait_to_be_set_loop_extends [OF this] show ?thesis using Inr by auto
qed

text \<open>
  Claim C6. \<^verbatim>\<open>wait_for\<close> reads the clock, then evaluates the predicate. When call \<open>k\<close> is
  the first that yields true and no reading before it was beyond the timeout, the
  result is true and that call is the last thing done; an always-true predicate gives
  true after one reading and one call, with no sleep. When the calls up to \<open>k\<close> all
  yield false and the reading after call \<open>k\<close> is the first beyond the timeout, the
  result is false and that reading is the last thing done: the predicate is not
  evaluated again.
\<close>

theorem wait_for_outcomes:
  "(\<forall>res tr. wait_for condition clock timeout interval = Some (res, tr) \<longrightarrow>
       take 2 tr = [Time, Call]) \<and>
   (condition 0 = Inr True \<longrightarrow>
       wait_for condition clock timeout interval = Some (Inr True, [Time, Call])) \<and>
   ((\<forall>i<k. condition i = Inr False) \<and> condition k = Inr True \<and>
    (\<forall>i. 1 \<le> i \<and> i \<le> k \<longrightarrow> clock i - clock 0 \<le> timeout) \<and> (0 < k \<longrightarrow> 0 \<le> interval) \<longrightarrow>
       wait_for condition clock timeout interval =
         Some (Inr True, Time # concat (replicate k (wait_for_round interval)) @ [Call])) \<and>
   ((\<forall>i\<le>k. condition i = Inr False) \<and>
    (\<forall>i. 1 \<le> i \<and> i \<le> k \<longrightarrow> clock i - clock 0 \<le> timeout) \<and>
    timeout < clock (Suc k) - clock 0 \<and> (0 < k \<longrightarrow> 0 \<le> interval) \<longrightarrow>
       wait_for condition clock timeout interval =
         Some (Inr False, Time # concat (replicate k (wait_for_round interval)) @ [Call, Time]))"
proof (intro conjI allI impI)
  fix res tr
  assume "wait_for condition clock timeout interval = Some (res, tr)"
  then show "take 2 tr = [Time, Call]" by (rule wait_for_starts)
next
  assume "condition 0 = Inr True"
  then show "wait_for condition clock timeout interval = Some (Inr True, [Time, Call])"
    using wait_for_loop_true [of 0 0 condition clock "clock 0" timeout interval "[Time]"]
    by (simp add: wait_for_def)
next
  assume a: "(\<forall>i<k. condition i = Inr False) \<and> condition k = Inr True \<and>
    (\<forall>i. 1 \<le> i \<and> i \<le> k \<longrightarrow> clock i - clock 0 \<le> timeout) \<and> (0 < k \<longrightarrow> 0 \<le> interval)"
  have "wait_for_loop condition clock timeout interval (clock 0) 0 [Time] =
      Some (Inr True, [Time] @ concat (replicate (k - 0) (wait_for_round interval)) @ [Call])"
    using a by (intro wait_for_loop_true) simp_all
  then show "wait_for condition clock timeout interval =
      Some (Inr True, Time # concat (replicate k (wait_for_round interval)) @ [Call])"
    by (simp add: wait_for_def)
next
  assume a: "(\<forall>i\<le>k. condition i = Inr False) \<and>
    (\<forall>i. 1 \<le> i \<and> i \<le> k \<longrightarrow> clock i - clock 0 \<le> timeout) \<and>
    timeout < clock (Suc k) - clock 0 \<and> (0 < k \<longrightarrow> 0 \<le> interval)"
  have "wait_for_loop condition clock timeout interval (clock 0) 0 [Time] =
      Some (Inr False, [Time] @ concat (replicate (k - 0) (wait_for_round interval)) @ [Call, Time])"
    using a by (intro wait_for_loop_false) simp_all
  then show "wait_for condition clock timeout interval =
      Some (Inr False, Time # concat (replicate k (wait_for_round interval)) @ [Call, Time])"
    by (simp add: wait_for_def)
qed

theorem wait_for_outcomes_witness:
  "wait_for third_time half_second_clock 1 (1 / 10) =
     Some (Inr True, [Time, Call, Time, Sleep (1 / 10), Call, Time, Sleep (1 / 10), Call]) \<and>
   wait_for never half_second_clock 1 (1 / 10) =
     Some (Inr False,
       [Time, Call, Time, Sleep (1 / 10), Call, Time, Sleep (1 / 10), Call, Time])"
proof -
  have r: "replicate 2 x = [x, x]" for x :: "event list"
    by (simp add: numeral_2_eq_2)
  have c: "\<forall>i. 1 \<le> i \<and> i \<le> (2::nat) \<longrightarrow> half_second_clock i - half_second_clock 0 \<le> 1"
    by (simp add: half_second_clock_def)
  have t: "(\<forall>i<2. third_time i = Inr False) \<and> third_time 2 = Inr True"
    by (simp add: third_time_def)
  have n: "(\<forall>i\<le>2. never i = Inr False) \<and>
      1 < half_second_clock (Suc 2) - half_second_clock 0"
    by (simp add: never_def half_second_clock_def)
  note w1 = wait_for_outcomes [of third_time half_second_clock 1 "1 / 10" 2,
      THEN conjunct2, THEN conjunct2, THEN conjunct1]
  note w2 = wait_for_outcomes [of never half_second_clock 1 "1 / 10" 2,
      THEN conjunct2, THEN conjunct2, THEN conjunct2]
  show ?thesis using w1 w2 c t n by (simp add: r wait_for_round_def)
qed

text \<open>
  Claim C5, as the code has it. \<^verbatim>\<open>wait_to_be_set\<close> evaluates the producer once and then
  reads the clock for the first time. It returns the first value the producer yields,
  whatever later calls would yield, as long as no reading before that call was beyond
  the timeout; it returns nothing once a reading is beyond the timeout with every call
  so far having yielded nothing. With a timeout of zero it makes exactly one call when
  that call yields a value or when the clock has advanced by the first check; when the
  clock has not advanced, it sleeps and calls the producer again.
\<close>

theorem wait_to_be_set_outcomes:
  "(\<forall>res tr r. wait_to_be_set condition clock timeout interval = Some (res, tr) \<and>
       condition 0 = Inr r \<longrightarrow> take 2 tr = [Call, Time]) \<and>
   ((\<forall>i<k. condition i = Inr None) \<and> condition k = Inr (Some v) \<and>
    (\<forall>i. 1 \<le> i \<and> i \<le> k \<longrightarrow> clock i - clock 0 \<le> timeout) \<and> (0 < k \<longrightarrow> 0 \<le> interval) \<longrightarrow>
       wait_to_be_set condition clock timeout interval =
         Some (Inr (Some v),
           Call # Time # concat (replicate k (wait_to_be_set_round interval)))) \<and>
   ((\<forall>i<k. condition i = Inr None) \<and> 1 \<le> k \<and>
    (\<forall>i. 1 \<le> i \<and> i < k \<longrightarrow> clock i - clock 0 \<le> timeout) \<and>
    timeout < clock k - clock 0 \<and> (1 < k \<longrightarrow> 0 \<le> interval) \<longrightarrow>
       wait_to_be_set condition clock timeout interval =
         Some (Inr None,
           Call # Time # concat (replicate (k - 1) (wait_to_be_set_round interval)) @ [Time])) \<and>
   (condition 0 = Inr None \<and> clock 0 < clock 1 \<longrightarrow>
       wait_to_be_set condition clock 0 interval = Some (Inr None, [Call, Time, Time])) \<and>
   (condition 0 = Inr None \<and> clock 1 \<le> clock 0 \<and> 0 \<le> interval \<and> condition 1 = Inr (Some v) \<longrightarrow>
       wait_to_be_set condition clock 0 interval =
         Some (Inr (Some v), [Call, Time, Time, Sleep interval, Call]))"
proof (intro conjI allI impI)
  fix res tr r
  assume "wait_to_be_set condition clock timeout interval = Some (res, tr) \<and> condition 0 = Inr r"
  then show "take 2 tr = [Call, Time]"
    using wait_to_be_set_starts [of condition clock timeout interval res tr] by simp
next
  assume a: "(\<forall>i<k. condition i = Inr None) \<and> condition k = Inr (Some v) \<and>
    (\<forall>i. 1 \<le> i \<and> i \<le> k \<longrightarrow> clock i - clock 0 \<le> timeout) \<and> (0 < k \<longrightarrow> 0 \<le> interval)"
  show "wait_to_be_set condition clock timeout interval =
      Some (Inr (Some v), Call # Time # concat (replicate k (wait_to_be_set_round interval)))"
  proof (cases k)
    case 0
    then show ?thesis using a
      by (simp add: wait_to_be_set_def) (subst wait_to_be_set_loop.simps, simp)
  next
    case (Suc m)
    have c0: "condition 0 = Inr None" using a Suc by simp
    have "wait_to_be_set_loop condition clock timeout interval (clock 0) 1 None [Call, Time] =
        Some (Inr (Some v),
          [Call, Time] @ concat (replicate (Suc k - 1) (wait_to_be_set_round interval)))"
      using a Suc by (intro wait_to_be_set_loop_value) simp_all
    then show ?thesis using c0 by (simp add: wait_to_be_set_def)
  qed
next
  assume a: "(\<forall>i<k. condition i = Inr None) \<and> 1 \<le> k \<and>
    (\<forall>i. 1 \<le> i \<and> i < k \<longrightarrow> clock i - clock 0 \<le> timeout) \<and>
    timeout < clock k - clock 0 \<and> (1 < k \<longrightarrow> 0 \<le> interval)"
  have c0: "condition 0 = Inr None" using a by simp
  have "wait_to_be_set_loop condition clock timeout interval (clock 0) 1 None [Call, Time] =
      Some (Inr None,
        [Call, Time] @ concat (replicate (k - 1) (wait_to_be_set_round interval)) @ [Time])"
    using a by (intro wait_to_be_set_loop_timeout) simp_all
  then show "wait_to_be_set condition clock timeout interval =
      Some (Inr None,
        Call # Time # concat (replicate (k - 1) (wait_to_be_set_round interval)) @ [Time])"
    using c0 by (simp add: wait_to_be_set_def)
next
  assume "condition 0 = Inr None \<and> clock 0 < clock 1"
  then show "wait_to_be_set condition clock 0 interval = Some (Inr None, [Call, Time, Time])"
    by (simp add: wait_to_be_set_def) (subst wait_to_be_set_loop.simps, simp)
next
  assume "condition 0 = Inr None \<and> clock 1 \<le> clock 0 \<and> 0 \<le> interval \<and>
    condition 1 = Inr (Some v)"
  then show "wait_to_be_set condition clock 0 interval =
      Some (Inr (Some v), [Call, Time, Time, Sleep interval, Call])"
    by (simp add: wait_to_be_set_def)
      (subst wait_to_be_set_loop.simps, simp, subst wait_to_be_set_loop.simps, simp)
qed

theorem wait_to_be_set_outcomes_witness:
  "wait_to_be_set late_producer half_second_clock 1 (1 / 10) =
     Some (Inr (Some 7), [Call, Time, Time, Sleep (1 / 10), Call]) \<and>
   wait_to_be_set silent_producer half_second_clock 1 (1 / 10) =
     Some (Inr None,
       [Call, Time, Time, Sleep (1 / 10), Call, Time, Sleep (1 / 10), Call, Time]) \<and>
   wait_to_be_set silent_producer half_second_clock 0 (1 / 10) =
     Some (Inr None, [Call, Time, Time])"
proof -
  have r: "replicate 2 x = [x, x]" for x :: "event list"
    by (simp add: numeral_2_eq_2)
  have c: "\<forall>i. 1 \<le> i \<and> i < (3::nat) \<longrightarrow> half_second_clock i - half_second_clock 0 \<le> 1"
    by (simp add: half_second_clock_def)
  have c1: "\<forall>i. 1 \<le> i \<and> i \<le> (1::nat) \<longrightarrow> half_second_clock i - half_second_clock 0 \<le> 1"
    by (simp add: half_second_clock_def)
  have t: "1 < half_second_clock 3 - half_second_clock 0"
    "half_second_clock 0 < half_second_clock 1"
    by (simp_all add: half_second_clock_def)
  have p: "(\<forall>i<1. late_producer i = Inr None) \<and> late_producer 1 = Inr (Some 7)"
    by (simp add: late_producer_def)
  note w1 = wait_to_be_set_outcomes [of late_producer half_second_clock 1 "1 / 10" 1 7,
      THEN conjunct2, THEN conjunct1]
  note w2 = wait_to_be_set_outcomes [of silent_producer half_second_clock 1 "1 / 10" 3,
      THEN conjunct2, THEN conjunct2, THEN conjunct1]
  note w3 = wait_to_be_set_outcomes [of silent_producer half_second_clock 0 "1 / 10",
      THEN conjunct2, THEN conjunct2, THEN conjunct2, THEN conjunct1]
  have a: "wait_to_be_set late_producer half_second_clock 1 (1 / 10) =
     Some (Inr (Some 7), [Call, Time, Time, Sleep (1 / 10), Call])"
    using w1 c1 p by (simp add: wait_to_be_set_round_def)
  have b: "wait_to_be_set silent_producer half_second_clock 1 (1 / 10) =
     Some (Inr None,
       [Call, Time, Time, Sleep (1 / 10), Call, Time, Sleep (1 / 10), Call, Time])"
    using w2 c t(1) by (simp add: wait_to_be_set_round_def r silent_producer_def)
  have d: "wait_to_be_set silent_producer half_second_clock 0 (1 / 10) =
     Some (Inr None, [Call, Time, Time])"
    using w3 t(2) by (simp add: silent_producer_def)
  show ?thesis using a b d by simp
qed

text \<open>
  Against claim C5 as stated: with a timeout of zero and a clock whose first two
  readings are equal, the producer is called twice.
\<close>

theorem wait_to_be_set_zero_timeout_two_calls:
  "wait_to_be_set late_producer stalled_clock 0 (1 / 10) =
     Some (Inr (Some 7), [Call, Time, Time, Sleep (1 / 10), Call])"
  by (simp add: wait_to_be_set_def wait_to_be_set_loop.simps late_producer_def
      stalled_clock_def)

subsection \<open>Template locator\<close>

lemma fold_max_ge_init: "(v::real) \<le> fold max vs v"
proof (induction vs arbitrary: v)
  case Nil
  show ?case by simp
next
  case (Cons a vs)
  have "v \<le> max a v" by simp
  also have "\<dots> \<le> fold max vs (max a v)" by (rule Cons.IH)
  finally show ?case by simp
qed

lemma fold_max_ge: "x \<in> set vs \<Longrightarrow> (x::real) \<le> fold max vs v"
proof (induction vs arbitrary: v)
  case Nil
  then show ?case by simp
next
  case (Cons a vs)
  show ?case
  proof (cases "x = a")
    case True
    have "a \<le> max a v" by simp
    also have "\<dots> \<le> fold max vs (max a v)" by (rule fold_max_ge_init)
    finally show ?thesis using True by simp
  next
    case False
    then have "x \<in> set vs" using Cons.prems by simp
    then show ?thesis using Cons.IH by simp
  qed
qed

lemma fold_max_mem: "fold max vs (v::real) \<in> set (v # vs)"
proof (induction vs arbitrary: v)
  case Nil
  show ?case by simp
next
  case (Cons a vs)
  have "max a v = a \<or> max a v = v" by (simp add: max_def)
  moreover have "fold max vs (max a v) \<in> set (max a v # vs)" by (rule Cons.IH)
  ultimately show ?case by (elim disjE) (simp_all, blast+)
qed

lemma first_index_less: "v \<in> set xs \<Longrightarrow> first_index xs v < length xs"
  by (induction xs) (auto simp: first_index_def)

lemma first_index_nth: "v \<in> set xs \<Longrightarrow> xs ! first_index xs v = v"
  by (induction xs) (auto simp: first_index_def)

text \<open>The greatest value of a non-empty map, and where \<^verbatim>\<open>minMaxLoc\<close> finds it.\<close>

lemma cv2_minMaxLoc_max:
  assumes sh: "shape result = [rh, rw]" and len: "length (data result) = rh * rw"
    and ne: "data result \<noteq> []"
  shows "\<exists>mn m lmn x y. cv2_minMaxLoc result = Inr (mn, m, lmn, (x, y)) \<and>
           x < rw \<and> y < rh \<and> at2 result y x = m \<and> (\<forall>i<rh. \<forall>j<rw. at2 result i j \<le> m)"
proof -
  obtain v vs where d: "data result = v # vs" using ne by (cases "data result") simp_all
  define m where "m = fold max vs v"
  define k where "k = first_index (v # vs) m"
  have mem: "m \<in> set (v # vs)" unfolding m_def by (rule fold_max_mem)
  have k: "k < rh * rw" using first_index_less [OF mem] d len by (simp add: k_def)
  have km: "data result ! k = m" using first_index_nth [OF mem] d by (simp add: k_def)
  have rw: "0 < rw" using k by (cases rw) simp_all
  have y: "k div rw < rh" using k by (simp add: less_mult_imp_div_less)
  have x: "k mod rw < rw" using rw by simp
  have at: "at2 result (k div rw) (k mod rw) = m" using km by (simp add: at2_def sh)
  have ub: "at2 result i j \<le> m" if "i < rh" "j < rw" for i j
  proof -
    have "i * rw + j < length (data result)" using that len by (simp add: index2_less)
    then have "data result ! (i * rw + j) \<in> set (v # vs)" using d by (metis nth_mem)
    then have "data result ! (i * rw + j) \<le> m"
      using fold_max_ge [of _ vs v] fold_max_ge_init [of v vs] by (auto simp: m_def)
    then show ?thesis by (simp add: at2_def sh)
  qed
  have "cv2_minMaxLoc result =
      Inr (fold min vs v, m,
           (first_index (v # vs) (fold min vs v) mod rw, first_index (v # vs) (fold min vs v) div rw),
           (k mod rw, k div rw))"
    by (simp add: cv2_minMaxLoc_def d sh Let_def m_def k_def)
  then show ?thesis using x y at ub by blast
qed

text \<open>
  Claim C3. For a readable reference image of height \<open>h\<close> and width \<open>w\<close>, a confidence
  in \<open>[0, 1]\<close> and a non-empty correlation map, \<^verbatim>\<open>__locate_on_screen\<close> returns the place
  \<open>(x, y)\<close> of the greatest value of the map moved by \<open>(w div 2, h div 2)\<close> when that
  value is strictly greater than the confidence, and \<open>None\<close>, without raising, when it
  is not.
\<close>

theorem locate_on_screen_point:
  assumes "0 \<le> confidence" and "confidence \<le> 1"
    and "imread env imagePath = Some template" and "shape template = [h, w, cn]"
    and "matchTemplate env (screenshot env frame) template = Inr result"
    and "shape result = [rh, rw]" and "length (data result) = rh * rw"
    and "data result \<noteq> []"
  shows "\<exists>x y m. x < rw \<and> y < rh \<and> at2 result y x = m \<and>
           (\<forall>i<rh. \<forall>j<rw. at2 result i j \<le> m) \<and>
           fst (locate_on_screen env imagePath frame confidence) =
             (if confidence < m
              then Inr (Some \<lparr>X = int x + int w div 2, Y = int y + int h div 2\<rparr>)
              else Inr None)"
proof -
  obtain mn m lmn x y where mm: "cv2_minMaxLoc result = Inr (mn, m, lmn, (x, y))"
    and xy: "x < rw" "y < rh" and at: "at2 result y x = m"
    and ub: "\<forall>i<rh. \<forall>j<rw. at2 result i j \<le> m"
    using cv2_minMaxLoc_max [OF assms(6,7,8)] by blast
  have "fst (locate_on_screen env imagePath frame confidence) =
          (if confidence < m
           then Inr (Some \<lparr>X = int x + int w div 2, Y = int y + int h div 2\<rparr>)
           else Inr None)"
    using assms(1-5) mm by (simp add: locate_on_screen_def Let_def Point_init_def)
  then show ?thesis using xy at ub by blast
qed

theorem locate_on_screen_point_witness:
  "fst (locate_on_screen env_found ''a.png'' None (7 / 10)) = Inr (Some \<lparr>X = 5, Y = 3\<rparr>) \<and>
   fst (locate_on_screen env_found ''a.png'' None (9 / 10)) = Inr None"
proof -
  have i: "imread env_found ''a.png'' = Some template_4x6"
    and m: "matchTemplate env_found (screenshot env_found None) template_4x6 = Inr corr_2x3"
    by (simp_all add: env_found_def)
  have t: "shape template_4x6 = [4, 6, 3]" by (simp add: template_4x6_def)
  have c: "shape corr_2x3 = [2, 3]" "length (data corr_2x3) = 2 * 3" "data corr_2x3 \<noteq> []"
    by (simp_all add: corr_2x3_def)
  have top: "x = 2 \<and> y = 1" if "x < 3" "y < 2" "\<forall>i<2. \<forall>j<3. at2 corr_2x3 i j \<le> at2 corr_2x3 y x"
    for x y
  proof -
    have "at2 corr_2x3 1 2 \<le> at2 corr_2x3 y x" using that(3) by simp
    moreover have "x = 0 \<or> x = 1 \<or> x = 2" "y = 0 \<or> y = 1" using that(1,2) by auto
    ultimately show ?thesis by (auto simp: at2_def corr_2x3_def)
  qed
  have v: "at2 corr_2x3 1 2 = 9 / 10" by (simp add: at2_def corr_2x3_def)
  from locate_on_screen_point [OF _ _ i t m c, of "7 / 10"]
  obtain x y where "x < 3" "y < 2" "\<forall>i<2. \<forall>j<3. at2 corr_2x3 i j \<le> at2 corr_2x3 y x"
    and r: "fst (locate_on_screen env_found ''a.png'' None (7 / 10)) =
      (if 7 / 10 < at2 corr_2x3 y x
       then Inr (Some \<lparr>X = int x + int 6 div 2, Y = int y + int 4 div 2\<rparr>) else Inr None)"
    by auto
  then have a: "fst (locate_on_screen env_found ''a.png'' None (7 / 10)) = Inr (Some \<lparr>X = 5, Y = 3\<rparr>)"
    using top [of x y] v by simp
  from locate_on_screen_point [OF _ _ i t m c, of "9 / 10"]
  obtain x y where "x < 3" "y < 2" "\<forall>i<2. \<forall>j<3. at2 corr_2x3 i j \<le> at2 corr_2x3 y x"
    and r: "fst (locate_on_screen env_found ''a.png'' None (9 / 10)) =
      (if 9 / 10 < at2 corr_2x3 y x
       then Inr (Some \<lparr>X = int x + int 6 div 2, Y = int y + int 4 div 2\<rparr>) else Inr None)"
    by auto
  then have b: "fst (locate_on_screen env_found ''a.png'' None (9 / 10)) = Inr None"
    using top [of x y] v by simp
  show ?thesis using a b by simp
qed

text \<open>
  Claim C4, as the code has it. A confidence outside \<open>[0, 1]\<close> fails the assertion before
  anything is captured or read. With a valid confidence and an unreadable reference
  image the call fails with \<^verbatim>\<open>FileNotFoundError\<close>, which is not an \<^verbatim>\<open>AssertionError\<close>; by
  then the frame has been captured: the capture comes before the reading of the
  reference image.
\<close>

theorem locate_on_screen_failures:
  "(\<not> (0 \<le> confidence \<and> confidence \<le> 1) \<longrightarrow>
      locate_on_screen env imagePath frame confidence = (Inl (AssertionError []), [])) \<and>
   (0 \<le> confidence \<and> confidence \<le> 1 \<and> imread env imagePath = None \<longrightarrow>
      locate_on_screen env imagePath frame confidence =
        (Inl (FileNotFoundError imagePath), [Screenshot frame, Imread imagePath])) \<and>
   FileNotFoundError imagePath \<noteq> AssertionError msg"
  by (simp add: locate_on_screen_def Let_def)

theorem locate_on_screen_failures_witness:
  "locate_on_screen env_found ''a.png'' None (101 / 100) = (Inl (AssertionError []), []) \<and>
   locate_on_screen env_missing ''a.png'' None (7 / 10) =
     (Inl (FileNotFoundError ''a.png''), [Screenshot None, Imread ''a.png''])"
proof -
  have "imread env_missing ''a.png'' = None" by (simp add: env_missing_def)
  then show ?thesis
    using locate_on_screen_failures [of "101 / 100" env_found "''a.png''" None]
      locate_on_screen_failures [of "7 / 10" env_missing "''a.png''" None]
    by simp
qed

text \<open>
  Against claim C4 as stated: when the reference image cannot be read, the calls made
  are the capture first and the reading of the image second.
\<close>

theorem locate_on_screen_captures_first:
  "snd (locate_on_screen env_missing ''missing.png'' None (7 / 10)) =
     [Screenshot None, Imread ''missing.png'']"
  by (simp add: locate_on_screen_def env_missing_def)

text \<open>
  Claim C10. The \<open>timeout\<close> argument of \<^verbatim>\<open>wait_for_image\<close> and of
  \<^verbatim>\<open>wait_for_image_to_disappear\<close> reaches nothing but the text of the \<^verbatim>\<open>TimeoutError\<close>:
  for any two values of it the calls made are the same, and the results are the same
  once that text is blanked. The calls are those of the polling loop run with a timeout
  of one second.
\<close>

theorem wait_for_image_timeout_unused:
  "map_option (map_prod (map_sum erase_timeout id) id)
     (wait_for_image envs clock imagePath frame confidence t1) =
   map_option (map_prod (map_sum erase_timeout id) id)
     (wait_for_image envs clock imagePath frame confidence t2) \<and>
   map_option snd (wait_for_image envs clock imagePath frame confidence t1) =
   map_option snd
     (wait_to_be_set (\<lambda>n. fst (locate_on_screen (envs n) imagePath frame confidence))
        clock 1 default_interval) \<and>
   map_option (map_prod (map_sum erase_timeout id) id)
     (wait_for_image_to_disappear envs clock imagePath frame confidence t1) =
   map_option (map_prod (map_sum erase_timeout id) id)
     (wait_for_image_to_disappear envs clock imagePath frame confidence t2) \<and>
   map_option snd (wait_for_image_to_disappear envs clock imagePath frame confidence t1) =
   map_option snd
     (wait_for (\<lambda>n. case fst (locate_on_screen (envs n) imagePath frame confidence) of
                       Inl e \<Rightarrow> Inl e | Inr point \<Rightarrow> Inr (point = None))
        clock 1 default_interval)"
  by (simp add: wait_for_image_def wait_for_image_to_disappear_def
      split: option.split prod.split sum.split)

lemma locate_steady_none:
  "fst (locate_on_screen (steady_screen n) ''a.png'' None (9 / 10)) = Inr None"
  by (simp add: steady_screen_def locate_on_screen_def env_found_def cv2_minMaxLoc_def
      corr_2x3_def template_4x6_def first_index_def)

lemma wait_for_image_100:
  "wait_for_image steady_screen half_second_clock ''a.png'' None (9 / 10) 100 =
     Some (Inl (TimeoutError (ImageNotFound ''a.png'' 100)),
       [Call, Time, Time, Sleep (1 / 10), Call, Time, Sleep (1 / 10), Call, Time])"
  by (simp add: wait_for_image_def wait_to_be_set_def wait_to_be_set_loop.simps
      locate_steady_none half_second_clock_def default_interval_def)

theorem wait_for_image_timeout_unused_witness:
  "wait_for_image steady_screen half_second_clock ''a.png'' None (9 / 10) 100 =
     Some (Inl (TimeoutError (ImageNotFound ''a.png'' 100)),
       [Call, Time, Time, Sleep (1 / 10), Call, Time, Sleep (1 / 10), Call, Time]) \<and>
   map_option (map_prod (map_sum erase_timeout id) id)
     (wait_for_image steady_screen half_second_clock ''a.png'' None (9 / 10) 0) =
     Some (Inl (TimeoutError (ImageNotFound ''a.png'' 0)),
       [Call, Time, Time, Sleep (1 / 10), Call, Time, Sleep (1 / 10), Call, Time])"
  using wait_for_image_timeout_unused
    [of steady_screen half_second_clock "''a.png''" None "9 / 10" 0 100, THEN conjunct1]
  by (simp add: wait_for_image_100)

subsection \<open>Command runner\<close>

text \<open>
  Claim C8, as the code has it. When the process of a command run with \<^verbatim>\<open>waitFor=True\<close>
  exits with a non-zero status and its output is well-formed UTF-8, \<^verbatim>\<open>run_command\<close> does
  not raise. It logs the failure at debug level with the content of the standard error
  pipe, or of the standard output pipe when the former is empty, and returns what is
  then left on the standard output pipe: the empty string when standard error was
  empty, the whole standard output otherwise.
\<close>

theorem run_command_nonzero_exit:
  assumes "popen cmd = Inr proc" and "returncode proc = Some rc" and "rc \<noteq> 0"
    and "valid_utf8 (map of_char (stdout proc))" and "valid_utf8 (map of_char (stderr proc))"
  shows "run_command popen lg cmd True =
     (Inr (if stderr proc = [] then [] else stdout proc),
      lg @ [(DEBUG, RunCommand cmd),
            (DEBUG, ExitedWith cmd rc (if stderr proc = [] then stdout proc else stderr proc))])"
  using assms
  by (simp add: run_command_def log_failure_def read_stderr_def read_stdout_def
      decode_utf8_def Let_def)

theorem run_command_nonzero_exit_witness:
  "run_command popen_quiet [] ''xdotool key a'' True =
     (Inr [], [(DEBUG, RunCommand ''xdotool key a''),
               (DEBUG, ExitedWith ''xdotool key a'' 1 ''partial'')]) \<and>
   run_command popen_both [] ''xdotool key a'' True =
     (Inr ''partial'', [(DEBUG, RunCommand ''xdotool key a''),
                        (DEBUG, ExitedWith ''xdotool key a'' 1 ''boom'')])"
proof -
  have q: "popen_quiet ''xdotool key a'' = Inr proc_quiet" "returncode proc_quiet = Some 1"
    "valid_utf8 (map of_char (stdout proc_quiet))" "valid_utf8 (map of_char (stderr proc_quiet))"
    by (simp_all add: popen_quiet_def proc_quiet_def)
  have b: "popen_both ''xdotool key a'' = Inr proc_both" "returncode proc_both = Some 1"
    "valid_utf8 (map of_char (stdout proc_both))" "valid_utf8 (map of_char (stderr proc_both))"
    by (simp_all add: popen_both_def proc_both_def)
  show ?thesis
    using run_command_nonzero_exit [where popen = popen_quiet and cmd = "''xdotool key a''"
        and proc = proc_quiet and rc = 1 and lg = "[]"]
      run_command_nonzero_exit [where popen = popen_both and cmd = "''xdotool key a''"
        and proc = proc_both and rc = 1 and lg = "[]"]
      q b
    by (simp add: proc_quiet_def proc_both_def)
qed

text \<open>Output that is not UTF-8 makes the decoding raise.\<close>

lemma run_command_garbled_output:
  "fst (run_command popen_garbled [] ''xdotool key a'' True) = Inl UnicodeDecodeError"
  by (simp add: run_command_def log_failure_def read_stderr_def decode_utf8_def
      popen_garbled_def proc_garbled_def)

text \<open>
  Against claim C8 as stated: a process that wrote to both pipes and exited with
  status 1 has its standard output returned to the caller.
\<close>

theorem run_command_returns_stdout_on_failure:
  "fst (run_command popen_both [] ''xdotool key a'' True) = Inr ''partial''"
  by (simp add: run_command_def log_failure_def read_stderr_def read_stdout_def
      decode_utf8_def popen_both_def proc_both_def)

subsection \<open>Registry\<close>

lemma registry_ok_config: "registry_ok r \<Longrightarrow> registry_ok (snd (config r unique))"
  by (auto simp: registry_ok_def config_def)

lemma registry_ok_get_instance:
  "registry_ok r \<Longrightarrow> registry_ok (snd (get_instance r did w h))"
  by (auto simp: registry_ok_def get_instance_def split: option.splits sum.splits)

lemma registry_ok_after_call: "registry_ok r \<Longrightarrow> registry_ok (after_call r c)"
  by (cases c) (simp_all add: registry_ok_config registry_ok_get_instance)

lemma registry_ok_run: "registry_ok (run calls)"
proof (induction calls rule: rev_induct)
  case Nil
  show ?case by (simp add: run_def initial_def registry_ok_def)
next
  case (snoc c calls)
  then show ?case using registry_ok_after_call [of "run calls" c] by (simp add: run_def)
qed

text \<open>
  Claim C9. After any sequence of \<^verbatim>\<open>config\<close> and \<^verbatim>\<open>get_instance\<close> calls, a registry in
  unique-display mode holds at most one handle; in that mode a \<^verbatim>\<open>get_instance\<close> with a
  new identifier fails once a handle exists; and a \<^verbatim>\<open>get_instance\<close> without an
  identifier succeeds exactly when the mode is set and one handle exists, and returns
  that handle.
\<close>

theorem registry_unique_display:
  "(uniqueDisplay (run calls) \<longrightarrow> length (instances (run calls)) \<le> 1) \<and>
   (uniqueDisplay r \<and> length (instances r) = 1 \<and> map_of (instances r) d = None \<longrightarrow>
      get_instance r (Some d) w h =
        (Inl (AssertionError ''There is already a display created.''), r)) \<and>
   ((\<exists>x. fst (get_instance r None w h) = Inr x) =
      (uniqueDisplay r \<and> length (instances r) = 1)) \<and>
   (uniqueDisplay r \<and> instances r = [(d, x)] \<longrightarrow> get_instance r None w h = (Inr x, r))"
proof (intro conjI)
  show "uniqueDisplay (run calls) \<longrightarrow> length (instances (run calls)) \<le> 1"
    using registry_ok_run [of calls] by (simp add: registry_ok_def)
qed (auto simp: get_instance_def)

theorem registry_unique_display_witness:
  "uniqueDisplay (run unique_calls) \<and> map fst (instances (run unique_calls)) = ['':1''] \<and>
   fst (get_instance (run unique_calls) (Some '':2'') (Some 800) (Some 600)) =
     Inl (AssertionError ''There is already a display created.'') \<and>
   fst (get_instance (run unique_calls) None None None) =
     Inr \<lparr>display = \<lparr>displayId = '':1'', width = 800, height = 600,
                      title = ''Xephyr-Window-:1''\<rparr>\<rparr>"
proof -
  have r: "run unique_calls =
      \<lparr>instances = [('':1'', \<lparr>display = \<lparr>displayId = '':1'', width = 800, height = 600,
                                          title = ''Xephyr-Window-:1''\<rparr>\<rparr>)],
       uniqueDisplay = True\<rparr>"
    by (simp add: run_def unique_calls_def initial_def config_def get_instance_def
        XControl_init_def Display_init_def)
  note t = registry_unique_display [where calls = unique_calls and r = "run unique_calls"
      and d = "'':2''" and w = "Some 800" and h = "Some 600"]
  note u = registry_unique_display [where r = "run unique_calls" and d = "'':1''"
      and w = None and h = None
      and x = "\<lparr>display = \<lparr>displayId = '':1'', width = 800, height = 600,
                               title = ''Xephyr-Window-:1''\<rparr>\<rparr>"]
  show ?thesis using t u by (simp add: r)
qed

end
